theory Spec2Isabelle
  imports Main
begin

section \<open>Types (include/Types.hpp)\<close>

text \<open>
  The two enums \<^verbatim>\<open>Direction\<close> and \<^verbatim>\<open>ElevatorState\<close> both have a member
  \<^verbatim>\<open>Idle\<close>; as in the C++ source they are always written qualified here
  (\<open>Direction.Idle\<close>, \<open>ElevatorState.Idle\<close>).  A C++ \<^verbatim>\<open>int\<close> is modelled by \<open>int\<close>:
  signed overflow is undefined in C++, so the model speaks about the executions in which
  no arithmetic leaves the range of \<^verbatim>\<open>int\<close>; the one place where the bound itself is
  used by the program (\<^verbatim>\<open>std::numeric_limits<int>::max()\<close>) is the constant \<open>INT_MAX\<close>.
  Private members lose their trailing underscore; where two classes use one member name,
  or a name is taken, the member is renamed: \<open>elevId\<close> is \<^verbatim>\<open>Elevator::id_\<close>, \<open>ev_type\<close>,
  \<open>ev_floor\<close>, \<open>ev_elevatorId\<close> and \<open>ev_direction\<close> are the members of \<^verbatim>\<open>Event\<close>,
  \<open>shutdownFlag\<close> is \<^verbatim>\<open>EventQueue::shutdown_\<close> and \<open>engineConfig\<close> is
  \<^verbatim>\<open>SimulationEngine::config_\<close>.  A method that both schedulers implement carries the class
  in its name (\<open>Master_handleHallCall\<close>, \<open>Distributed_handleHallCall\<close>); the plain name is
  the call through \<^verbatim>\<open>IScheduler\<close>.
\<close>

datatype Direction = Up | Down | Idle

datatype ElevatorState = Idle | Moving | DoorsOpening | DoorsOpen | DoorsClosing

datatype EventType =
  HallCall | CarCall | ElevatorArrived | DoorsOpened | DoorsClosed | Tick | Shutdown

datatype ControllerType = Master | Distributed

record Config =
  numFloors :: int
  numElevators :: int
  carCapacity :: int
  tickDurationMs :: int
  doorOpenTicks :: int
  floorTravelTicks :: int
  controllerType :: ControllerType

definition defaultConfig :: Config where
  "defaultConfig =
     \<lparr>numFloors = 10, numElevators = 3, carCapacity = 6, tickDurationMs = 500,
      doorOpenTicks = 3, floorTravelTicks = 2, controllerType = Master\<rparr>"

text \<open>An event; the wall-clock \<^verbatim>\<open>timestamp\<close> member is never read and is left out.\<close>

record Event =
  ev_type :: EventType
  ev_floor :: int
  ev_elevatorId :: int
  ev_direction :: Direction

definition INT_MAX :: int where
  "INT_MAX = 2147483647"

text \<open>
  What a call can do instead of returning: \<^verbatim>\<open>Building::getElevator\<close> and
  \<^verbatim>\<open>Building::getFloor\<close> throw \<^verbatim>\<open>std::out_of_range\<close>; locking a \<^verbatim>\<open>std::mutex\<close> that the
  calling thread already owns never succeeds (the behaviour is undefined, and the
  implementations in use block the thread for ever).
\<close>

datatype error = OutOfRange | Deadlock

section \<open>std::set<int> and std::map as sorted lists\<close>

text \<open>
  A \<^verbatim>\<open>std::set<int>\<close> is the list of its elements in ascending order, which is the
  order in which the program iterates over it.
\<close>

fun set_insert :: "int \<Rightarrow> int list \<Rightarrow> int list" where
  "set_insert x [] = [x]"
| "set_insert x (y # ys) =
     (if x = y then y # ys else if x < y then x # y # ys else y # set_insert x ys)"

definition set_erase :: "int \<Rightarrow> int list \<Rightarrow> int list" where
  "set_erase x xs = filter (\<lambda>y. y \<noteq> x) xs"

text \<open>
  \<^verbatim>\<open>std::min_element(first, last, cmp)\<close>: the first element that no later one
  is smaller than; the caller has checked that the range is not empty.
\<close>

fun min_element_from :: "('a \<Rightarrow> 'a \<Rightarrow> bool) \<Rightarrow> 'a \<Rightarrow> 'a list \<Rightarrow> 'a" where
  "min_element_from cmp smallest [] = smallest"
| "min_element_from cmp smallest (x # xs) =
     min_element_from cmp (if cmp x smallest then x else smallest) xs"

text \<open>
  A \<^verbatim>\<open>std::map<std::pair<int, Direction>, int>\<close> is the list of its entries in key
  order; pairs compare lexicographically and the enum in declaration order.
\<close>

type_synonym HallCallKey = "int \<times> Direction"

type_synonym HallCallMap = "(HallCallKey \<times> int) list"

fun Direction_rank :: "Direction \<Rightarrow> nat" where
  "Direction_rank Up = 0"
| "Direction_rank Down = 1"
| "Direction_rank Direction.Idle = 2"

fun key_less :: "HallCallKey \<Rightarrow> HallCallKey \<Rightarrow> bool" where
  "key_less (f1, d1) (f2, d2) =
     (f1 < f2 \<or> (f1 = f2 \<and> Direction_rank d1 < Direction_rank d2))"

definition map_find :: "HallCallMap \<Rightarrow> HallCallKey \<Rightarrow> int option" where
  "map_find m k = map_of m k"

text \<open>\<^verbatim>\<open>m[k] = v\<close>\<close>

fun map_assign :: "HallCallKey \<Rightarrow> int \<Rightarrow> HallCallMap \<Rightarrow> HallCallMap" where
  "map_assign k v [] = [(k, v)]"
| "map_assign k v ((k', v') # m) =
     (if k = k' then (k, v) # m
      else if key_less k k' then (k, v) # (k', v') # m
      else (k', v') # map_assign k v m)"

definition map_erase :: "HallCallKey \<Rightarrow> HallCallMap \<Rightarrow> HallCallMap" where
  "map_erase k m = filter (\<lambda>kv. fst kv \<noteq> k) m"

section \<open>Floor and Elevator (src/Domain.cpp)\<close>

record Floor =
  floorNumber :: int
  upButtonPressed :: bool
  downButtonPressed :: bool

definition Floor :: "int \<Rightarrow> Floor" where
  "Floor number = \<lparr>floorNumber = number, upButtonPressed = False, downButtonPressed = False\<rparr>"

definition pressUpButton :: "Floor \<Rightarrow> Floor" where
  "pressUpButton f = f\<lparr>upButtonPressed := True\<rparr>"

definition pressDownButton :: "Floor \<Rightarrow> Floor" where
  "pressDownButton f = f\<lparr>downButtonPressed := True\<rparr>"

definition clearUpButton :: "Floor \<Rightarrow> Floor" where
  "clearUpButton f = f\<lparr>upButtonPressed := False\<rparr>"

definition clearDownButton :: "Floor \<Rightarrow> Floor" where
  "clearDownButton f = f\<lparr>downButtonPressed := False\<rparr>"

record Elevator =
  elevId :: int
  currentFloor :: int
  direction :: Direction
  state :: ElevatorState
  carCalls :: "int list"
  passengerCount :: int
  capacity :: int
  ticksRemaining :: int

definition Elevator :: "int \<Rightarrow> int \<Rightarrow> int \<Rightarrow> Elevator" where
  "Elevator i cap startFloor =
     \<lparr>elevId = i, currentFloor = startFloor, direction = Direction.Idle,
      state = ElevatorState.Idle, carCalls = [], passengerCount = 0, capacity = cap,
      ticksRemaining = 0\<rparr>"

definition addCarCall :: "int \<Rightarrow> Elevator \<Rightarrow> Elevator" where
  "addCarCall fl e = e\<lparr>carCalls := set_insert fl (carCalls e)\<rparr>"

definition removeCarCall :: "int \<Rightarrow> Elevator \<Rightarrow> Elevator" where
  "removeCarCall fl e = e\<lparr>carCalls := set_erase fl (carCalls e)\<rparr>"

definition hasCarCallAt :: "Elevator \<Rightarrow> int \<Rightarrow> bool" where
  "hasCarCallAt e fl = (count_list (carCalls e) fl > 0)"

definition hasAnyCarCalls :: "Elevator \<Rightarrow> bool" where
  "hasAnyCarCalls e = (carCalls e \<noteq> [])"

definition startMoving :: "Direction \<Rightarrow> int \<Rightarrow> Elevator \<Rightarrow> Elevator" where
  "startMoving dir ticksToArrive e =
     e\<lparr>direction := dir, state := Moving, ticksRemaining := ticksToArrive\<rparr>"

definition decrementTick :: "Elevator \<Rightarrow> Elevator" where
  "decrementTick e =
     (if ticksRemaining e > 0 then e\<lparr>ticksRemaining := ticksRemaining e - 1\<rparr> else e)"

definition arriveAtFloor :: "int \<Rightarrow> Elevator \<Rightarrow> Elevator" where
  "arriveAtFloor fl e = e\<lparr>currentFloor := fl, state := DoorsOpening\<rparr>"

definition openDoors :: "int \<Rightarrow> Elevator \<Rightarrow> Elevator" where
  "openDoors ticksToOpen e = e\<lparr>state := DoorsOpening, ticksRemaining := ticksToOpen\<rparr>"

definition setDoorsOpen :: "int \<Rightarrow> Elevator \<Rightarrow> Elevator" where
  "setDoorsOpen ticksOpen e = e\<lparr>state := DoorsOpen, ticksRemaining := ticksOpen\<rparr>"

definition closeDoors :: "int \<Rightarrow> Elevator \<Rightarrow> Elevator" where
  "closeDoors ticksToClose e = e\<lparr>state := DoorsClosing, ticksRemaining := ticksToClose\<rparr>"

definition setIdle :: "Elevator \<Rightarrow> Elevator" where
  "setIdle e =
     e\<lparr>state := ElevatorState.Idle, direction := Direction.Idle, ticksRemaining := 0\<rparr>"

definition costToServe :: "Elevator \<Rightarrow> int \<Rightarrow> Direction \<Rightarrow> int \<Rightarrow> int" where
  "costToServe e fl dir nFloors =
     (let distance = \<bar>currentFloor e - fl\<bar> in
      if state e = ElevatorState.Idle then distance
      else
        let sameDirection = (direction e = dir);
            onTheWay = ((direction e = Up \<and> fl > currentFloor e) \<or>
                        (direction e = Down \<and> fl < currentFloor e))
        in if sameDirection \<and> onTheWay then distance else distance + 2 * nFloors)"

definition boardPassenger :: "Elevator \<Rightarrow> Elevator" where
  "boardPassenger e =
     (if passengerCount e < capacity e then e\<lparr>passengerCount := passengerCount e + 1\<rparr> else e)"

definition alightPassenger :: "Elevator \<Rightarrow> Elevator" where
  "alightPassenger e =
     (if passengerCount e > 0 then e\<lparr>passengerCount := passengerCount e - 1\<rparr> else e)"

text \<open>
  The states of one car that its public mutators can produce, starting from the
  constructor.
\<close>

inductive reachable_Elevator :: "Elevator \<Rightarrow> bool" where
  r_init: "reachable_Elevator (Elevator i cap startFloor)"
| r_addCarCall: "reachable_Elevator e \<Longrightarrow> reachable_Elevator (addCarCall fl e)"
| r_removeCarCall: "reachable_Elevator e \<Longrightarrow> reachable_Elevator (removeCarCall fl e)"
| r_startMoving: "reachable_Elevator e \<Longrightarrow> reachable_Elevator (startMoving dir t e)"
| r_decrementTick: "reachable_Elevator e \<Longrightarrow> reachable_Elevator (decrementTick e)"
| r_arriveAtFloor: "reachable_Elevator e \<Longrightarrow> reachable_Elevator (arriveAtFloor fl e)"
| r_openDoors: "reachable_Elevator e \<Longrightarrow> reachable_Elevator (openDoors t e)"
| r_setDoorsOpen: "reachable_Elevator e \<Longrightarrow> reachable_Elevator (setDoorsOpen t e)"
| r_closeDoors: "reachable_Elevator e \<Longrightarrow> reachable_Elevator (closeDoors t e)"
| r_setIdle: "reachable_Elevator e \<Longrightarrow> reachable_Elevator (setIdle e)"
| r_boardPassenger: "reachable_Elevator e \<Longrightarrow> reachable_Elevator (boardPassenger e)"
| r_alightPassenger: "reachable_Elevator e \<Longrightarrow> reachable_Elevator (alightPassenger e)"

text \<open>Invariant 3 of the specification, for one car.\<close>

definition idle_inv :: "Elevator \<Rightarrow> bool" where
  "idle_inv e =
     (state e = ElevatorState.Idle \<longrightarrow> direction e = Direction.Idle \<and> ticksRemaining e = 0)"

section \<open>Building (src/Domain.cpp)\<close>

text \<open>
  The building owns its floors and its cars.  A reference \<^verbatim>\<open>Elevator&\<close> obtained from
  \<^verbatim>\<open>getElevator\<close> and then mutated is an update of the car at that index
  (\<open>withElevator\<close>), after the range check of \<^verbatim>\<open>getElevator\<close>.
\<close>

record Building =
  floors :: "Floor list"
  elevators :: "Elevator list"
  config :: Config

definition Building :: "Config \<Rightarrow> Building" where
  "Building cfg =
     \<lparr>floors = map Floor [1..numFloors cfg],
      elevators = map (\<lambda>i. Elevator i (carCapacity cfg) 1) [0..numElevators cfg - 1],
      config = cfg\<rparr>"

definition getNumFloors :: "Building \<Rightarrow> int" where
  "getNumFloors b = numFloors (config b)"

definition getNumElevators :: "Building \<Rightarrow> int" where
  "getNumElevators b = numElevators (config b)"

definition isValidFloor :: "Building \<Rightarrow> int \<Rightarrow> bool" where
  "isValidFloor b fl = (fl \<ge> 1 \<and> fl \<le> numFloors (config b))"

definition isValidElevator :: "Building \<Rightarrow> int \<Rightarrow> bool" where
  "isValidElevator b i = (i \<ge> 0 \<and> i < numElevators (config b))"

definition getElevator :: "Building \<Rightarrow> int \<Rightarrow> error + Elevator" where
  "getElevator b i =
     (if \<not> isValidElevator b i then Inl OutOfRange else Inr (elevators b ! nat i))"

definition withElevator :: "int \<Rightarrow> (Elevator \<Rightarrow> Elevator) \<Rightarrow> Building \<Rightarrow> Building" where
  "withElevator i f b = b\<lparr>elevators := (elevators b)[nat i := f (elevators b ! nat i)]\<rparr>"

definition withFloor :: "int \<Rightarrow> (Floor \<Rightarrow> Floor) \<Rightarrow> Building \<Rightarrow> Building" where
  "withFloor fl f b = b\<lparr>floors := (floors b)[nat (fl - 1) := f (floors b ! nat (fl - 1))]\<rparr>"

definition registerHallCall :: "int \<Rightarrow> Direction \<Rightarrow> Building \<Rightarrow> Building" where
  "registerHallCall fl dir b =
     (if \<not> isValidFloor b fl then b
      else if dir = Up then withFloor fl pressUpButton b
      else if dir = Down then withFloor fl pressDownButton b
      else b)"

definition clearHallCall :: "int \<Rightarrow> Direction \<Rightarrow> Building \<Rightarrow> Building" where
  "clearHallCall fl dir b =
     (if \<not> isValidFloor b fl then b
      else if dir = Up then withFloor fl clearUpButton b
      else if dir = Down then withFloor fl clearDownButton b
      else b)"

definition hasHallCall :: "Building \<Rightarrow> int \<Rightarrow> Direction \<Rightarrow> bool" where
  "hasHallCall b fl dir =
     (if \<not> isValidFloor b fl then False
      else if dir = Up then upButtonPressed (floors b ! nat (fl - 1))
      else if dir = Down then downButtonPressed (floors b ! nat (fl - 1))
      else False)"

definition getAllHallCalls :: "Building \<Rightarrow> (int \<times> Direction) list" where
  "getAllHallCalls b =
     concat (map (\<lambda>f. (if upButtonPressed f then [(floorNumber f, Up)] else []) @
                       (if downButtonPressed f then [(floorNumber f, Down)] else []))
                 (floors b))"

section \<open>EventQueue (include/EventQueue.hpp)\<close>

text \<open>
  The queue and its shutdown flag.  Every method holds the queue's mutex for its own
  body only; the condition variable has no state of its own.
\<close>

record 'a EventQueue =
  queue :: "'a list"
  shutdownFlag :: bool

definition EventQueue :: "'a EventQueue" where
  "EventQueue = \<lparr>queue = [], shutdownFlag = False\<rparr>"

definition push :: "'a \<Rightarrow> 'a EventQueue \<Rightarrow> 'a EventQueue" where
  "push event q = q\<lparr>queue := queue q @ [event]\<rparr>"

text \<open>
  \<^verbatim>\<open>pop\<close> waits until the queue is not empty or shutdown was signalled.  In the model
  the outer \<open>None\<close> says that the wait does not end (nothing is queued and nobody has
  shut the queue down); otherwise the call returns its \<^verbatim>\<open>std::optional\<close>, given here
  together with the queue the call leaves behind.
\<close>

definition pop :: "'a EventQueue \<Rightarrow> ('a option \<times> 'a EventQueue) option" where
  "pop q =
     (if \<not> (queue q \<noteq> [] \<or> shutdownFlag q) then None
      else if shutdownFlag q \<and> queue q = [] then Some (None, q)
      else Some (Some (hd (queue q)), q\<lparr>queue := tl (queue q)\<rparr>))"

definition tryPop :: "'a EventQueue \<Rightarrow> 'a option \<times> 'a EventQueue" where
  "tryPop q =
     (if queue q = [] then (None, q)
      else (Some (hd (queue q)), q\<lparr>queue := tl (queue q)\<rparr>))"

definition shutdown :: "'a EventQueue \<Rightarrow> 'a EventQueue" where
  "shutdown q = q\<lparr>shutdownFlag := True\<rparr>"

definition reset :: "'a EventQueue \<Rightarrow> 'a EventQueue" where
  "reset q = q\<lparr>shutdownFlag := False, queue := []\<rparr>"

definition empty_q :: "'a EventQueue \<Rightarrow> bool" where
  "empty_q q = (queue q = [])"

definition size_q :: "'a EventQueue \<Rightarrow> nat" where
  "size_q q = length (queue q)"

definition isShutdown :: "'a EventQueue \<Rightarrow> bool" where
  "isShutdown q = shutdownFlag q"

text \<open>
  Calling \<^verbatim>\<open>pop\<close> again and again on a queue: the values returned, up to the first
  \<^verbatim>\<open>std::nullopt\<close> (included), or \<open>None\<close> when one of the calls never returns.
\<close>

fun pop_all :: "nat \<Rightarrow> 'a EventQueue \<Rightarrow> ('a option list \<times> 'a EventQueue) option" where
  "pop_all 0 q = Some ([], q)"
| "pop_all (Suc n) q =
     (case pop q of
        None \<Rightarrow> None
      | Some (r, q') \<Rightarrow>
          (case pop_all n q' of
             None \<Rightarrow> None
           | Some (rs, q'') \<Rightarrow> Some (r # rs, q'')))"

section \<open>MasterController (src/Scheduler.cpp)\<close>

text \<open>
  The controller's own state is the assignment table and its \<^verbatim>\<open>std::mutex\<close>; the
  building it refers to is passed along.  \<open>mutex\<close> is \<open>True\<close> while a
  \<^verbatim>\<open>std::lock_guard\<close> on it is alive.  The mutex is modelled because one call path takes
  it twice: \<^verbatim>\<open>handleHallCall\<close> holds its guard (Scheduler.cpp:11) for the whole body,
  which calls \<^verbatim>\<open>dispatchElevator\<close>, which constructs a second guard on the same mutex
  (Scheduler.cpp:109).  Every other guard in the repository (the cars', the building's,
  the queue's and the distributed controller's) covers a scope that calls nothing
  locking the same mutex again, so in one thread it always finds its mutex free and
  is not modelled.
\<close>

record MasterController =
  assignments :: HallCallMap
  mutex :: bool

definition MasterController :: MasterController where
  "MasterController = \<lparr>assignments = [], mutex = False\<rparr>"

text \<open>Constructing and destroying a \<^verbatim>\<open>std::lock_guard<std::mutex>\<close> on \<open>mutex\<close>.\<close>

definition lock :: "MasterController \<Rightarrow> error + MasterController" where
  "lock m = (if mutex m then Inl Deadlock else Inr (m\<lparr>mutex := True\<rparr>))"

definition unlock :: "MasterController \<Rightarrow> MasterController" where
  "unlock m = m\<lparr>mutex := False\<rparr>"

definition calculateCost :: "Building \<Rightarrow> Elevator \<Rightarrow> int \<Rightarrow> Direction \<Rightarrow> int" where
  "calculateCost b elev fl dir = costToServe elev fl dir (getNumFloors b)"

text \<open>
  The loop of \<^verbatim>\<open>selectElevator\<close> over the car ids still to visit, with
  \<^verbatim>\<open>(bestElevator, bestCost)\<close> as the accumulator.
\<close>

fun selectElevator_loop ::
  "Building \<Rightarrow> int \<Rightarrow> Direction \<Rightarrow> int list \<Rightarrow> int \<times> int \<Rightarrow> error + int \<times> int" where
  "selectElevator_loop b fl dir [] best = Inr best"
| "selectElevator_loop b fl dir (i # is) (bestElevator, bestCost) =
     (case getElevator b i of
        Inl e \<Rightarrow> Inl e
      | Inr elev \<Rightarrow>
          let cost = calculateCost b elev fl dir in
          selectElevator_loop b fl dir is
            (if cost < bestCost then (i, cost) else (bestElevator, bestCost)))"

definition selectElevator :: "Building \<Rightarrow> int \<Rightarrow> Direction \<Rightarrow> error + int" where
  "selectElevator b fl dir =
     (case selectElevator_loop b fl dir [0..getNumElevators b - 1] (-1, INT_MAX) of
        Inl e \<Rightarrow> Inl e
      | Inr (bestElevator, bestCost) \<Rightarrow> Inr bestElevator)"

text \<open>
  The destinations of a car: its car calls and the floors of the entries of the
  table (assignments or claims) that carry its id.
\<close>

definition destinations_of :: "int \<Rightarrow> HallCallMap \<Rightarrow> int list \<Rightarrow> int list" where
  "destinations_of elevatorId table calls =
     fold (\<lambda>(key, assignedId) ds. if assignedId = elevatorId then set_insert (fst key) ds else ds)
          table calls"

definition closest :: "int \<Rightarrow> int list \<Rightarrow> int" where
  "closest current destinations =
     min_element_from (\<lambda>a b. \<bar>a - current\<bar> < \<bar>b - current\<bar>) (hd destinations) (tl destinations)"

definition Master_dispatchElevator ::
  "int \<Rightarrow> Building \<Rightarrow> MasterController \<Rightarrow> error + Building \<times> MasterController" where
  "Master_dispatchElevator elevatorId b m =
     (case getElevator b elevatorId of
        Inl e \<Rightarrow> Inl e
      | Inr elev \<Rightarrow>
          if state elev \<noteq> ElevatorState.Idle then Inr (b, m)
          else
            (case lock m of
               Inl e \<Rightarrow> Inl e
             | Inr m1 \<Rightarrow>
                 let destinations = destinations_of elevatorId (assignments m1) (carCalls elev);
                     m2 = unlock m1
                 in if destinations = [] then Inr (b, m2)
                    else
                      let current = currentFloor elev;
                          target = closest current destinations;
                          dir = (if target > current then Up else Down)
                      in if target = current
                         then Inr (withElevator elevatorId (openDoors (doorOpenTicks (config b))) b, m2)
                         else Inr (withElevator elevatorId
                                     (startMoving dir (floorTravelTicks (config b))) b, m2)))"

definition Master_handleHallCall ::
  "int \<Rightarrow> Direction \<Rightarrow> Building \<Rightarrow> MasterController \<Rightarrow> error + Building \<times> MasterController" where
  "Master_handleHallCall fl dir b m =
     (case lock m of
        Inl e \<Rightarrow> Inl e
      | Inr m1 \<Rightarrow>
          let key = (fl, dir) in
          if map_find (assignments m1) key \<noteq> None then Inr (b, unlock m1)
          else
            let b1 = registerHallCall fl dir b in
            (case selectElevator b1 fl dir of
               Inl e \<Rightarrow> Inl e
             | Inr elevatorId \<Rightarrow>
                 if elevatorId \<ge> 0 then
                   (case Master_dispatchElevator elevatorId b1
                           (m1\<lparr>assignments := map_assign key elevatorId (assignments m1)\<rparr>) of
                      Inl e \<Rightarrow> Inl e
                    | Inr (b2, m2) \<Rightarrow> Inr (b2, unlock m2))
                 else Inr (b1, unlock m1)))"

definition Master_handleCarCall ::
  "int \<Rightarrow> int \<Rightarrow> Building \<Rightarrow> MasterController \<Rightarrow> error + Building \<times> MasterController" where
  "Master_handleCarCall elevatorId fl b m =
     (if \<not> isValidElevator b elevatorId \<or> \<not> isValidFloor b fl then Inr (b, m)
      else Master_dispatchElevator elevatorId (withElevator elevatorId (addCarCall fl) b) m)"

definition getAssignment ::
  "MasterController \<Rightarrow> int \<Rightarrow> Direction \<Rightarrow> error + int option \<times> MasterController" where
  "getAssignment m fl dir =
     (case lock m of
        Inl e \<Rightarrow> Inl e
      | Inr m1 \<Rightarrow> Inr (map_find (assignments m1) (fl, dir), unlock m1))"

definition clearAssignment :: "int \<Rightarrow> Direction \<Rightarrow> MasterController \<Rightarrow> error + MasterController" where
  "clearAssignment fl dir m =
     (case lock m of
        Inl e \<Rightarrow> Inl e
      | Inr m1 \<Rightarrow> Inr (unlock (m1\<lparr>assignments := map_erase (fl, dir) (assignments m1)\<rparr>)))"

definition Master_onElevatorArrived ::
  "int \<Rightarrow> int \<Rightarrow> Building \<Rightarrow> MasterController \<Rightarrow> error + Building \<times> MasterController" where
  "Master_onElevatorArrived elevatorId fl b m =
     (case getElevator b elevatorId of
        Inl e \<Rightarrow> Inl e
      | Inr elev \<Rightarrow>
          let dir = direction elev in
          (case getAssignment m fl dir of
             Inl e \<Rightarrow> Inl e
           | Inr (assignment, m1) \<Rightarrow>
               if assignment = Some elevatorId then
                 (case clearAssignment fl dir m1 of
                    Inl e \<Rightarrow> Inl e
                  | Inr m2 \<Rightarrow>
                      Inr (withElevator elevatorId (removeCarCall fl) (clearHallCall fl dir b), m2))
               else Inr (withElevator elevatorId (removeCarCall fl) b, m1)))"

definition Master_onDoorsOpened ::
  "int \<Rightarrow> int \<Rightarrow> Building \<Rightarrow> MasterController \<Rightarrow> error + Building \<times> MasterController" where
  "Master_onDoorsOpened elevatorId fl b m = Inr (b, m)"

definition Master_onDoorsClosed ::
  "int \<Rightarrow> Building \<Rightarrow> MasterController \<Rightarrow> error + Building \<times> MasterController" where
  "Master_onDoorsClosed elevatorId b m = Master_dispatchElevator elevatorId b m"

fun Master_tick_loop ::
  "int list \<Rightarrow> Building \<Rightarrow> MasterController \<Rightarrow> error + Building \<times> MasterController" where
  "Master_tick_loop [] b m = Inr (b, m)"
| "Master_tick_loop (i # is) b m =
     (case getElevator b i of
        Inl e \<Rightarrow> Inl e
      | Inr elev \<Rightarrow>
          if state elev = ElevatorState.Idle then
            (case Master_dispatchElevator i b m of
               Inl e \<Rightarrow> Inl e
             | Inr (b', m') \<Rightarrow> Master_tick_loop is b' m')
          else Master_tick_loop is b m)"

definition Master_tick :: "Building \<Rightarrow> MasterController \<Rightarrow> error + Building \<times> MasterController" where
  "Master_tick b m = Master_tick_loop [0..getNumElevators b - 1] b m"

section \<open>DistributedController (src/Scheduler.cpp)\<close>

text \<open>The claim board; the value \<open>-1\<close> marks an entry nobody has claimed.\<close>

record DistributedController =
  claimBoard :: HallCallMap

definition DistributedController :: DistributedController where
  "DistributedController = \<lparr>claimBoard = []\<rparr>"

definition Distributed_handleHallCall ::
  "int \<Rightarrow> Direction \<Rightarrow> Building \<Rightarrow> DistributedController \<Rightarrow> Building \<times> DistributedController" where
  "Distributed_handleHallCall fl dir b d =
     (let b1 = registerHallCall fl dir b;
          key = (fl, dir)
      in if map_find (claimBoard d) key = None
         then (b1, d\<lparr>claimBoard := map_assign key (-1) (claimBoard d)\<rparr>)
         else (b1, d))"

definition getClaimsFor :: "DistributedController \<Rightarrow> int \<Rightarrow> (int \<times> Direction) list" where
  "getClaimsFor d elevatorId =
     map fst (filter (\<lambda>(key, claimerId). claimerId = elevatorId) (claimBoard d))"

definition hasClaim :: "DistributedController \<Rightarrow> int \<Rightarrow> int \<Rightarrow> Direction \<Rightarrow> bool" where
  "hasClaim d elevatorId fl dir = (map_find (claimBoard d) (fl, dir) = Some elevatorId)"

definition releaseClaim :: "int \<Rightarrow> Direction \<Rightarrow> DistributedController \<Rightarrow> DistributedController" where
  "releaseClaim fl dir d = d\<lparr>claimBoard := map_erase (fl, dir) (claimBoard d)\<rparr>"

definition decideNextAction :: "int \<Rightarrow> Building \<Rightarrow> DistributedController \<Rightarrow> error + Building" where
  "decideNextAction elevatorId b d =
     (case getElevator b elevatorId of
        Inl e \<Rightarrow> Inl e
      | Inr elev \<Rightarrow>
          if state elev \<noteq> ElevatorState.Idle then Inr b
          else
            let destinations =
                  fold (\<lambda>claim ds. set_insert (fst claim) ds) (getClaimsFor d elevatorId)
                       (carCalls elev)
            in if destinations = [] then Inr b
               else
                 let current = currentFloor elev;
                     target = closest current destinations
                 in if target = current
                    then Inr (withElevator elevatorId (openDoors (doorOpenTicks (config b))) b)
                    else Inr (withElevator elevatorId
                                (startMoving (if target > current then Up else Down)
                                   (floorTravelTicks (config b))) b))"

text \<open>
  The scan of \<^verbatim>\<open>tryClaimCalls\<close> over the board in key order, with
  \<^verbatim>\<open>(bestFloor, bestDir, bestDistance)\<close> as the accumulator.
\<close>

fun nearest_unclaimed ::
  "int \<Rightarrow> HallCallMap \<Rightarrow> int \<times> Direction \<times> int \<Rightarrow> int \<times> Direction \<times> int" where
  "nearest_unclaimed current [] best = best"
| "nearest_unclaimed current ((key, claimerId) # rest) (bestFloor, bestDir, bestDistance) =
     nearest_unclaimed current rest
       (if claimerId = -1 \<and> \<bar>fst key - current\<bar> < bestDistance
        then (fst key, snd key, \<bar>fst key - current\<bar>)
        else (bestFloor, bestDir, bestDistance))"

definition tryClaimCalls ::
  "int \<Rightarrow> Building \<Rightarrow> DistributedController \<Rightarrow> error + DistributedController" where
  "tryClaimCalls elevatorId b d =
     (case getElevator b elevatorId of
        Inl e \<Rightarrow> Inl e
      | Inr elev \<Rightarrow>
          if state elev \<noteq> ElevatorState.Idle \<and> hasAnyCarCalls elev then Inr d
          else
            (case nearest_unclaimed (currentFloor elev) (claimBoard d)
                    (-1, Direction.Idle, INT_MAX) of
               (bestFloor, bestDir, bestDistance) \<Rightarrow>
                 if bestFloor \<ge> 0
                 then Inr (d\<lparr>claimBoard := map_assign (bestFloor, bestDir) elevatorId (claimBoard d)\<rparr>)
                 else Inr d))"

definition Distributed_handleCarCall ::
  "int \<Rightarrow> int \<Rightarrow> Building \<Rightarrow> DistributedController \<Rightarrow> error + Building \<times> DistributedController" where
  "Distributed_handleCarCall elevatorId fl b d =
     (if \<not> isValidElevator b elevatorId \<or> \<not> isValidFloor b fl then Inr (b, d)
      else
        (case decideNextAction elevatorId (withElevator elevatorId (addCarCall fl) b) d of
           Inl e \<Rightarrow> Inl e
         | Inr b' \<Rightarrow> Inr (b', d)))"

definition Distributed_onElevatorArrived ::
  "int \<Rightarrow> int \<Rightarrow> Building \<Rightarrow> DistributedController \<Rightarrow> error + Building \<times> DistributedController" where
  "Distributed_onElevatorArrived elevatorId fl b d =
     (case getElevator b elevatorId of
        Inl e \<Rightarrow> Inl e
      | Inr elev \<Rightarrow>
          let dir = direction elev in
          if hasClaim d elevatorId fl dir
          then Inr (withElevator elevatorId (removeCarCall fl) (clearHallCall fl dir b),
                    releaseClaim fl dir d)
          else Inr (withElevator elevatorId (removeCarCall fl) b, d))"

definition Distributed_onDoorsOpened ::
  "int \<Rightarrow> int \<Rightarrow> Building \<Rightarrow> DistributedController \<Rightarrow> error + Building \<times> DistributedController" where
  "Distributed_onDoorsOpened elevatorId fl b d = Inr (b, d)"

definition Distributed_onDoorsClosed ::
  "int \<Rightarrow> Building \<Rightarrow> DistributedController \<Rightarrow> error + Building \<times> DistributedController" where
  "Distributed_onDoorsClosed elevatorId b d =
     (case decideNextAction elevatorId b d of
        Inl e \<Rightarrow> Inl e
      | Inr b' \<Rightarrow> Inr (b', d))"

fun Distributed_tick_loop ::
  "int list \<Rightarrow> Building \<Rightarrow> DistributedController \<Rightarrow> error + Building \<times> DistributedController" where
  "Distributed_tick_loop [] b d = Inr (b, d)"
| "Distributed_tick_loop (i # is) b d =
     (case tryClaimCalls i b d of
        Inl e \<Rightarrow> Inl e
      | Inr d' \<Rightarrow>
          (case getElevator b i of
             Inl e \<Rightarrow> Inl e
           | Inr elev \<Rightarrow>
               if state elev = ElevatorState.Idle then
                 (case decideNextAction i b d' of
                    Inl e \<Rightarrow> Inl e
                  | Inr b' \<Rightarrow> Distributed_tick_loop is b' d')
               else Distributed_tick_loop is b d'))"

definition Distributed_tick ::
  "Building \<Rightarrow> DistributedController \<Rightarrow> error + Building \<times> DistributedController" where
  "Distributed_tick b d = Distributed_tick_loop [0..getNumElevators b - 1] b d"

section \<open>SimulationEngine (src/Simulation.cpp)\<close>

text \<open>
  The engine owns the building, one scheduler (chosen by \<^verbatim>\<open>createScheduler\<close> from the
  configuration and called through \<^verbatim>\<open>IScheduler\<close>), the event queue and the tick counter.
  The logger writes to a stream that nothing reads back and is left out, as are the
  thread handle and the sleep between two ticks.
\<close>

datatype Scheduler = MasterS MasterController | DistributedS DistributedController

definition createScheduler :: "ControllerType \<Rightarrow> Scheduler" where
  "createScheduler ty =
     (case ty of Master \<Rightarrow> MasterS MasterController
               | Distributed \<Rightarrow> DistributedS DistributedController)"

record SimulationEngine =
  building :: Building
  scheduler :: Scheduler
  eventQueue :: "Event EventQueue"
  engineConfig :: Config
  running :: bool
  currentTick :: int

definition SimulationEngine :: "Config \<Rightarrow> SimulationEngine" where
  "SimulationEngine cfg =
     \<lparr>building = Building cfg, scheduler = createScheduler (controllerType cfg),
      eventQueue = EventQueue, engineConfig = cfg, running = False, currentTick = 0\<rparr>"

text \<open>A default-constructed \<^verbatim>\<open>Event\<close> with its type set.\<close>

definition Event :: "EventType \<Rightarrow> Event" where
  "Event ty = \<lparr>ev_type = ty, ev_floor = -1, ev_elevatorId = -1, ev_direction = Direction.Idle\<rparr>"

definition requestHallCall :: "int \<Rightarrow> Direction \<Rightarrow> SimulationEngine \<Rightarrow> SimulationEngine" where
  "requestHallCall fl dir s =
     (if \<not> isValidFloor (building s) fl then s
      else if dir = Direction.Idle then s
      else if fl = 1 \<and> dir = Down then s
      else if fl = getNumFloors (building s) \<and> dir = Up then s
      else s\<lparr>eventQueue := push ((Event HallCall)\<lparr>ev_floor := fl, ev_direction := dir\<rparr>)
                                (eventQueue s)\<rparr>)"

definition requestCarCall :: "int \<Rightarrow> int \<Rightarrow> SimulationEngine \<Rightarrow> SimulationEngine" where
  "requestCarCall elevatorId fl s =
     (if \<not> isValidElevator (building s) elevatorId then s
      else if \<not> isValidFloor (building s) fl then s
      else s\<lparr>eventQueue := push ((Event CarCall)\<lparr>ev_elevatorId := elevatorId, ev_floor := fl\<rparr>)
                                (eventQueue s)\<rparr>)"

text \<open>The calls through the \<^verbatim>\<open>IScheduler\<close> interface.\<close>

definition inMaster :: "error + Building \<times> MasterController \<Rightarrow> error + Building \<times> Scheduler" where
  "inMaster r = (case r of Inl e \<Rightarrow> Inl e | Inr (b, m) \<Rightarrow> Inr (b, MasterS m))"

definition inDistributed ::
  "error + Building \<times> DistributedController \<Rightarrow> error + Building \<times> Scheduler" where
  "inDistributed r = (case r of Inl e \<Rightarrow> Inl e | Inr (b, d) \<Rightarrow> Inr (b, DistributedS d))"

definition handleHallCall ::
  "int \<Rightarrow> Direction \<Rightarrow> Building \<Rightarrow> Scheduler \<Rightarrow> error + Building \<times> Scheduler" where
  "handleHallCall fl dir b sch =
     (case sch of
        MasterS m \<Rightarrow> inMaster (Master_handleHallCall fl dir b m)
      | DistributedS d \<Rightarrow> inDistributed (Inr (Distributed_handleHallCall fl dir b d)))"

definition handleCarCall ::
  "int \<Rightarrow> int \<Rightarrow> Building \<Rightarrow> Scheduler \<Rightarrow> error + Building \<times> Scheduler" where
  "handleCarCall elevatorId fl b sch =
     (case sch of
        MasterS m \<Rightarrow> inMaster (Master_handleCarCall elevatorId fl b m)
      | DistributedS d \<Rightarrow> inDistributed (Distributed_handleCarCall elevatorId fl b d))"

definition onElevatorArrived ::
  "int \<Rightarrow> int \<Rightarrow> Building \<Rightarrow> Scheduler \<Rightarrow> error + Building \<times> Scheduler" where
  "onElevatorArrived elevatorId fl b sch =
     (case sch of
        MasterS m \<Rightarrow> inMaster (Master_onElevatorArrived elevatorId fl b m)
      | DistributedS d \<Rightarrow> inDistributed (Distributed_onElevatorArrived elevatorId fl b d))"

definition onDoorsOpened ::
  "int \<Rightarrow> int \<Rightarrow> Building \<Rightarrow> Scheduler \<Rightarrow> error + Building \<times> Scheduler" where
  "onDoorsOpened elevatorId fl b sch =
     (case sch of
        MasterS m \<Rightarrow> inMaster (Master_onDoorsOpened elevatorId fl b m)
      | DistributedS d \<Rightarrow> inDistributed (Distributed_onDoorsOpened elevatorId fl b d))"

definition onDoorsClosed :: "int \<Rightarrow> Building \<Rightarrow> Scheduler \<Rightarrow> error + Building \<times> Scheduler" where
  "onDoorsClosed elevatorId b sch =
     (case sch of
        MasterS m \<Rightarrow> inMaster (Master_onDoorsClosed elevatorId b m)
      | DistributedS d \<Rightarrow> inDistributed (Distributed_onDoorsClosed elevatorId b d))"

definition tick :: "Building \<Rightarrow> Scheduler \<Rightarrow> error + Building \<times> Scheduler" where
  "tick b sch =
     (case sch of
        MasterS m \<Rightarrow> inMaster (Master_tick b m)
      | DistributedS d \<Rightarrow> inDistributed (Distributed_tick b d))"

text \<open>A scheduler call made by the engine: its result replaces building and scheduler.\<close>

definition scheduled :: "SimulationEngine \<Rightarrow> error + Building \<times> Scheduler \<Rightarrow> error + SimulationEngine" where
  "scheduled s r =
     (case r of Inl e \<Rightarrow> Inl e | Inr (b, sch) \<Rightarrow> Inr (s\<lparr>building := b, scheduler := sch\<rparr>))"

definition processEvent :: "Event \<Rightarrow> SimulationEngine \<Rightarrow> error + SimulationEngine" where
  "processEvent event s =
     (case ev_type event of
        HallCall \<Rightarrow>
          scheduled s (handleHallCall (ev_floor event) (ev_direction event) (building s) (scheduler s))
      | CarCall \<Rightarrow>
          scheduled s (handleCarCall (ev_elevatorId event) (ev_floor event) (building s) (scheduler s))
      | ElevatorArrived \<Rightarrow>
          scheduled s (onElevatorArrived (ev_elevatorId event) (ev_floor event) (building s) (scheduler s))
      | DoorsOpened \<Rightarrow>
          scheduled s (onDoorsOpened (ev_elevatorId event) (ev_floor event) (building s) (scheduler s))
      | DoorsClosed \<Rightarrow>
          scheduled s (onDoorsClosed (ev_elevatorId event) (building s) (scheduler s))
      | Shutdown \<Rightarrow> Inr (s\<lparr>running := False\<rparr>)
      | Tick \<Rightarrow> Inr s)"

definition putElevator :: "int \<Rightarrow> Elevator \<Rightarrow> Building \<Rightarrow> Building" where
  "putElevator i e b = b\<lparr>elevators := (elevators b)[nat i := e]\<rparr>"

text \<open>
  The body of the loop of \<^verbatim>\<open>updateElevators\<close> for car \<open>i\<close>: \<open>elev\<close> is the car as
  the iteration finds it, \<open>elev1\<close> the car after \<^verbatim>\<open>decrementTick\<close>.
\<close>

definition updateElevator :: "int \<Rightarrow> SimulationEngine \<Rightarrow> error + SimulationEngine" where
  "updateElevator i s =
     (case getElevator (building s) i of
        Inl e \<Rightarrow> Inl e
      | Inr elev \<Rightarrow>
          let st = state elev;
              elev1 = decrementTick elev
          in
          if st = Moving then
            (if ticksRemaining elev1 = 0 then
               let current = currentFloor elev1;
                   next = (if direction elev1 = Up then current + 1 else current - 1)
               in Inr (s\<lparr>building := putElevator i (arriveAtFloor next elev1) (building s),
                         eventQueue := push ((Event ElevatorArrived)
                                               \<lparr>ev_elevatorId := i, ev_floor := next\<rparr>)
                                            (eventQueue s)\<rparr>)
             else Inr (s\<lparr>building := putElevator i elev1 (building s)\<rparr>))
          else if st = DoorsOpening then
            (if ticksRemaining elev1 = 0 then
               Inr (s\<lparr>building := putElevator i
                                     (setDoorsOpen (doorOpenTicks (engineConfig s)) elev1)
                                     (building s),
                      eventQueue := push ((Event DoorsOpened)
                                            \<lparr>ev_elevatorId := i, ev_floor := currentFloor elev1\<rparr>)
                                         (eventQueue s)\<rparr>)
             else Inr (s\<lparr>building := putElevator i elev1 (building s)\<rparr>))
          else if st = DoorsOpen then
            (if ticksRemaining elev1 = 0
             then Inr (s\<lparr>building := putElevator i (closeDoors 1 elev1) (building s)\<rparr>)
             else Inr (s\<lparr>building := putElevator i elev1 (building s)\<rparr>))
          else if st = DoorsClosing then
            (if ticksRemaining elev1 = 0 then
               (if hasAnyCarCalls elev1 \<or> getAllHallCalls (building s) \<noteq> []
                then Inr (s\<lparr>building := putElevator i elev1 (building s),
                            eventQueue := push ((Event DoorsClosed)\<lparr>ev_elevatorId := i\<rparr>)
                                               (eventQueue s)\<rparr>)
                else Inr (s\<lparr>building := putElevator i (setIdle elev1) (building s)\<rparr>))
             else Inr (s\<lparr>building := putElevator i elev1 (building s)\<rparr>))
          else Inr s)"

fun updateElevators_loop :: "int list \<Rightarrow> SimulationEngine \<Rightarrow> error + SimulationEngine" where
  "updateElevators_loop [] s = Inr s"
| "updateElevators_loop (i # is) s =
     (case updateElevator i s of
        Inl e \<Rightarrow> Inl e
      | Inr s' \<Rightarrow> updateElevators_loop is s')"

definition updateElevators :: "SimulationEngine \<Rightarrow> error + SimulationEngine" where
  "updateElevators s = updateElevators_loop [0..getNumElevators (building s) - 1] s"

definition processTick :: "SimulationEngine \<Rightarrow> error + SimulationEngine" where
  "processTick s =
     (case updateElevators s of
        Inl e \<Rightarrow> Inl e
      | Inr s' \<Rightarrow> scheduled s' (tick (building s') (scheduler s')))"

text \<open>
  No scheduler callback touches the event queue, so the loop that drains it ends: each
  round takes one event out.
\<close>

lemma scheduled_eventQueue: "scheduled s r = Inr s' \<Longrightarrow> eventQueue s' = eventQueue s"
  by (auto simp: scheduled_def split: sum.splits)

lemma processEvent_eventQueue: "processEvent event s = Inr s' \<Longrightarrow> eventQueue s' = eventQueue s"
  by (cases "ev_type event") (auto simp: processEvent_def dest: scheduled_eventQueue)

text \<open>\<^verbatim>\<open>while (auto event = eventQueue_.tryPop()) processEvent(*event);\<close>\<close>

function drainEvents :: "SimulationEngine \<Rightarrow> error + SimulationEngine" where
  "drainEvents s =
     (case tryPop (eventQueue s) of
        (None, q) \<Rightarrow> Inr (s\<lparr>eventQueue := q\<rparr>)
      | (Some event, q) \<Rightarrow>
          (case processEvent event (s\<lparr>eventQueue := q\<rparr>) of
             Inl e \<Rightarrow> Inl e
           | Inr s' \<Rightarrow> drainEvents s'))"
  by pat_completeness auto
termination
proof (relation "measure (\<lambda>s. length (queue (eventQueue s)))")
  show "wf (measure (\<lambda>s. length (queue (eventQueue s))))"
    by simp
next
  fix s :: SimulationEngine and x q ev s'
  assume popped: "(x, q) = tryPop (eventQueue s)" "x = Some ev"
    and processed: "processEvent ev (s\<lparr>eventQueue := q\<rparr>) = Inr s'"
  from popped have "queue (eventQueue s) \<noteq> []" and "queue q = tl (queue (eventQueue s))"
    by (auto simp: tryPop_def split: if_splits)
  moreover from processed have "eventQueue s' = q"
    by (auto dest: processEvent_eventQueue)
  ultimately show "(s', s) \<in> measure (\<lambda>s. length (queue (eventQueue s)))"
    by (cases "queue (eventQueue s)") auto
qed

declare drainEvents.simps [simp del]

text \<open>
  One round of \<^verbatim>\<open>runSimulationLoop\<close> once the sleep is over: the tick, the counter,
  the pending events.  \<open>runTicks n\<close> is \<open>n\<close> rounds.
\<close>

definition runSimulationLoop_round :: "SimulationEngine \<Rightarrow> error + SimulationEngine" where
  "runSimulationLoop_round s =
     (case processTick s of
        Inl e \<Rightarrow> Inl e
      | Inr s' \<Rightarrow> drainEvents (s'\<lparr>currentTick := currentTick s' + 1\<rparr>))"

fun runTicks :: "nat \<Rightarrow> SimulationEngine \<Rightarrow> error + SimulationEngine" where
  "runTicks 0 s = Inr s"
| "runTicks (Suc n) s =
     (case runSimulationLoop_round s of
        Inl e \<Rightarrow> Inl e
      | Inr s' \<Rightarrow> runTicks n s')"

section \<open>Repeated calls and well-formed buildings\<close>




section \<open>Runs of the engine\<close>

text \<open>
  The states of an engine constructed with \<open>cfg\<close> in a run in which requests come in
  through \<^verbatim>\<open>requestHallCall\<close> and \<^verbatim>\<open>requestCarCall\<close> only, called by any thread between
  two steps of the engine's own thread.  The steps of that thread are those of
  \<^verbatim>\<open>runSimulationLoop\<close>: a tick with the increment of the counter, and the processing
  of one event taken from the queue; \<^verbatim>\<open>start\<close> and \<^verbatim>\<open>stop\<close> set the flag, and \<^verbatim>\<open>stop\<close>
  shuts the queue down.  A step that does not return has no successor.
\<close>

inductive reachable :: "Config \<Rightarrow> SimulationEngine \<Rightarrow> bool" for cfg :: Config where
  constructed: "reachable cfg (SimulationEngine cfg)"
| hall_request: "reachable cfg s \<Longrightarrow> reachable cfg (requestHallCall fl dir s)"
| car_request: "reachable cfg s \<Longrightarrow> reachable cfg (requestCarCall i fl s)"
| ticked:
    "reachable cfg s \<Longrightarrow> processTick s = Inr s' \<Longrightarrow>
     reachable cfg (s'\<lparr>currentTick := currentTick s' + 1\<rparr>)"
| event_processed:
    "reachable cfg s \<Longrightarrow> tryPop (eventQueue s) = (Some event, q) \<Longrightarrow>
     processEvent event (s\<lparr>eventQueue := q\<rparr>) = Inr s' \<Longrightarrow> reachable cfg s'"
| started: "reachable cfg s \<Longrightarrow> reachable cfg (s\<lparr>running := True\<rparr>)"
| stopped:
    "reachable cfg s \<Longrightarrow>
     reachable cfg (s\<lparr>running := False, eventQueue := shutdown (eventQueue s)\<rparr>)"

text \<open>
  A hall call that \<^verbatim>\<open>requestHallCall\<close> lets through: a floor of the building, a direction
  Up or Down, not Down at floor 1 and not Up at the top floor.
\<close>

definition acceptedHallCall :: "Config \<Rightarrow> int \<Rightarrow> Direction \<Rightarrow> bool" where
  "acceptedHallCall cfg fl dir =
     (1 \<le> fl \<and> fl \<le> numFloors cfg \<and> (dir = Up \<or> dir = Down) \<and>
      \<not> (fl = 1 \<and> dir = Down) \<and> \<not> (fl = numFloors cfg \<and> dir = Up))"

text \<open>
  The invariant of such runs: the building keeps its configuration and its number of
  floors, every HallCall event in the queue is an accepted one, and every button that is
  lit belongs to an accepted hall call.
\<close>

definition boundary_inv :: "Config \<Rightarrow> SimulationEngine \<Rightarrow> bool" where
  "boundary_inv cfg s =
     (config (building s) = cfg \<and>
      length (floors (building s)) = nat (numFloors cfg) \<and>
      (\<forall>ev\<in>set (queue (eventQueue s)).
         ev_type ev = HallCall \<longrightarrow> acceptedHallCall cfg (ev_floor ev) (ev_direction ev)) \<and>
      (\<forall>fl dir. hasHallCall (building s) fl dir \<longrightarrow> acceptedHallCall cfg fl dir))"

section \<open>Scenarios\<close>

text \<open>The concrete states at which the theorems below are evaluated.\<close>

text \<open>The car with the given id as a run of the engine leaves it.\<close>

definition elevatorAfter :: "error + SimulationEngine \<Rightarrow> int \<Rightarrow> error + Elevator" where
  "elevatorAfter r i = (case r of Inl e \<Rightarrow> Inl e | Inr s \<Rightarrow> getElevator (building s) i)"

text \<open>
  The default engine (10 floors, 3 cars, \<^verbatim>\<open>doorOpenTicks = 3\<close>) in which car 0 is moving
  up from floor 1 with one tick of travel left.
\<close>

definition movingCar :: SimulationEngine where
  "movingCar =
     (SimulationEngine defaultConfig)
       \<lparr>building := withElevator 0 (startMoving Up 1) (Building defaultConfig)\<rparr>"

text \<open>
  Scenario C of the specification: 10 floors, car 0 at floor 2 moving in direction
  \<open>dir0\<close> with the car call 7, car 1 idle at floor 6.
\<close>

definition scenarioC :: "Direction \<Rightarrow> Building" where
  "scenarioC dir0 =
     \<lparr>floors = map Floor [1..10],
      elevators = [startMoving dir0 2 (addCarCall 7 (Elevator 0 6 2)), Elevator 1 6 6],
      config = defaultConfig\<lparr>numElevators := 2\<rparr>\<rparr>"

text \<open>
  Scenario D of the specification: the distributed controller with two cars, both idle
  at floor 1; \<^verbatim>\<open>handleHallCall(5, Up)\<close> and one \<^verbatim>\<open>tick()\<close>, then \<^verbatim>\<open>handleHallCall(6, Up)\<close>
  and a second \<^verbatim>\<open>tick()\<close>.
\<close>

definition scenarioD_config :: Config where
  "scenarioD_config = defaultConfig\<lparr>numElevators := 2, controllerType := Distributed\<rparr>"

definition scenarioD_first :: "error + Building \<times> DistributedController" where
  "scenarioD_first =
     (case Distributed_handleHallCall 5 Up (Building scenarioD_config) DistributedController of
        (b, d) \<Rightarrow> Distributed_tick b d)"

definition scenarioD_second :: "error + Building \<times> DistributedController" where
  "scenarioD_second =
     (case scenarioD_first of
        Inl e \<Rightarrow> Inl e
      | Inr (b, d) \<Rightarrow>
          (case Distributed_handleHallCall 6 Up b d of
             (b', d') \<Rightarrow> Distributed_tick b' d'))"

text \<open>Who holds the claim for a hall call, and the claims of a car, after such a run.\<close>

definition claimAfter ::
  "error + Building \<times> DistributedController \<Rightarrow> HallCallKey \<Rightarrow> error + int option" where
  "claimAfter r key = (case r of Inl e \<Rightarrow> Inl e | Inr (b, d) \<Rightarrow> Inr (map_find (claimBoard d) key))"

definition claimsAfter ::
  "error + Building \<times> DistributedController \<Rightarrow> int \<Rightarrow> error + (int \<times> Direction) list" where
  "claimsAfter r i = (case r of Inl e \<Rightarrow> Inl e | Inr (b, d) \<Rightarrow> Inr (getClaimsFor d i))"

text \<open>
  Scenario B of the specification: the master controller with two cars, both idle at
  floor 1, and no assignment yet; as a building with its controller, and as the engine
  that \<^verbatim>\<open>requestHallCall(8, Up)\<close> was called on.
\<close>

definition scenarioB_config :: Config where
  "scenarioB_config = defaultConfig\<lparr>numElevators := 2\<rparr>"

definition scenarioB_engine :: SimulationEngine where
  "scenarioB_engine = requestHallCall 8 Up (SimulationEngine scenarioB_config)"

text \<open>
  A building of 10 floors whose only car is at floor 5, moving down to its car call at
  floor 2.
\<close>

definition busyCar :: Building where
  "busyCar =
     \<lparr>floors = map Floor [1..10],
      elevators = [startMoving Down 2 (addCarCall 2 (Elevator 0 6 5))],
      config = defaultConfig\<lparr>numElevators := 1\<rparr>\<rparr>"

text \<open>
  Scenario A's engine (5 floors, one car, \<^verbatim>\<open>doorOpenTicks = 3\<close>, \<^verbatim>\<open>floorTravelTicks = 2\<close>)
  with either controller, on which \<^verbatim>\<open>requestCarCall(0, 3)\<close> was called before the first
  tick; and the same engine with the car at floor 2, its doors closing and the car call
  still pending.
\<close>

definition scenarioA_config :: "ControllerType \<Rightarrow> Config" where
  "scenarioA_config ty = defaultConfig\<lparr>numFloors := 5, numElevators := 1, controllerType := ty\<rparr>"

definition carCallTo3 :: "ControllerType \<Rightarrow> SimulationEngine" where
  "carCallTo3 ty = requestCarCall 0 3 (SimulationEngine (scenarioA_config ty))"

definition stuckCar :: "ControllerType \<Rightarrow> int \<Rightarrow> int \<Rightarrow> SimulationEngine" where
  "stuckCar ty ticks t =
     \<lparr>building =
        \<lparr>floors = map Floor [1..5],
         elevators = [\<lparr>elevId = 0, currentFloor = 2, direction = Up, state = DoorsClosing,
                       carCalls = [3], passengerCount = 0, capacity = 6, ticksRemaining = ticks\<rparr>],
         config = scenarioA_config ty\<rparr>,
      scheduler = createScheduler ty, eventQueue = EventQueue,
      engineConfig = scenarioA_config ty, running = False, currentTick = t\<rparr>"

text \<open>
  The engine of scenario D after \<^verbatim>\<open>requestHallCall(5, Up)\<close> and the processing of the event
  it queued.
\<close>

definition hallCall5 :: SimulationEngine where
  "hallCall5 =
     (SimulationEngine scenarioD_config)
       \<lparr>building := registerHallCall 5 Up (Building scenarioD_config),
        scheduler := DistributedS \<lparr>claimBoard = [((5, Up), -1)]\<rparr>\<rparr>"

text \<open>
  Scenario D in the engine: \<^verbatim>\<open>requestHallCall(5, Up)\<close>, two rounds of the loop,
  \<^verbatim>\<open>requestHallCall(6, Up)\<close>, two more rounds.
\<close>

definition scenarioD_engine_first :: "error + SimulationEngine" where
  "scenarioD_engine_first = runTicks 2 (requestHallCall 5 Up (SimulationEngine scenarioD_config))"

definition scenarioD_engine_second :: "error + SimulationEngine" where
  "scenarioD_engine_second =
     (case scenarioD_engine_first of
        Inl e \<Rightarrow> Inl e
      | Inr s \<Rightarrow> runTicks 2 (requestHallCall 6 Up s))"

section \<open>Auxiliary notions for the proofs\<close>

text \<open>Two buildings with the same configuration and the same floors.\<close>

definition same_floors :: "Building \<Rightarrow> Building \<Rightarrow> bool" where
  "same_floors b b' = (config b' = config b \<and> floors b' = floors b)"

text \<open>Every car of the building is in a state that the operations of a car can reach.\<close>

definition reachable_cars :: "Building \<Rightarrow> bool" where
  "reachable_cars b = list_all reachable_Elevator (elevators b)"

text \<open>
  The car that one round of the loop of \<^verbatim>\<open>updateElevators\<close> makes of the car it visits;
  \<open>work\<close> says whether any hall call is pending in the building.
\<close>

definition carAfterTick :: "int \<Rightarrow> bool \<Rightarrow> Elevator \<Rightarrow> Elevator" where
  "carAfterTick openTicks work elev =
     (let elev1 = decrementTick elev in
      if state elev = Moving then
        (if ticksRemaining elev1 = 0
         then arriveAtFloor (if direction elev1 = Up then currentFloor elev1 + 1
                             else currentFloor elev1 - 1) elev1
         else elev1)
      else if state elev = DoorsOpening then
        (if ticksRemaining elev1 = 0 then setDoorsOpen openTicks elev1 else elev1)
      else if state elev = DoorsOpen then
        (if ticksRemaining elev1 = 0 then closeDoors 1 elev1 else elev1)
      else if state elev = DoorsClosing then
        (if ticksRemaining elev1 = 0 \<and> \<not> (hasAnyCarCalls elev1 \<or> work) then setIdle elev1 else elev1)
      else elev)"

text \<open>The events that the same round queues for car \<open>i\<close>.\<close>

definition eventsAfterTick :: "int \<Rightarrow> bool \<Rightarrow> Elevator \<Rightarrow> Event list" where
  "eventsAfterTick i work elev =
     (let elev1 = decrementTick elev in
      if state elev = Moving \<and> ticksRemaining elev1 = 0 then
        [\<lparr>ev_type = ElevatorArrived,
          ev_floor = (if direction elev1 = Up then currentFloor elev1 + 1 else currentFloor elev1 - 1),
          ev_elevatorId = i, ev_direction = Direction.Idle\<rparr>]
      else if state elev = DoorsOpening \<and> ticksRemaining elev1 = 0 then
        [\<lparr>ev_type = DoorsOpened, ev_floor = currentFloor elev1, ev_elevatorId = i,
          ev_direction = Direction.Idle\<rparr>]
      else if state elev = DoorsClosing \<and> ticksRemaining elev1 = 0 \<and> (hasAnyCarCalls elev1 \<or> work) then
        [\<lparr>ev_type = DoorsClosed, ev_floor = -1, ev_elevatorId = i, ev_direction = Direction.Idle\<rparr>]
      else [])"


section \<open>Basic facts\<close>

lemma upto_0_0: "[0..(0::int)] = [0]"
  by (simp add: upto.simps)

lemma upto_0_1: "[0..(1::int)] = [0, 1]"
  by (simp add: upto.simps)


lemma config_withFloor [simp]: "config (withFloor fl f b) = config b"
  by (simp add: withFloor_def)

lemma elevators_withFloor [simp]: "elevators (withFloor fl f b) = elevators b"
  by (simp add: withFloor_def)

lemma config_registerHallCall [simp]: "config (registerHallCall fl dir b) = config b"
  by (simp add: registerHallCall_def)

lemma elevators_registerHallCall [simp]: "elevators (registerHallCall fl dir b) = elevators b"
  by (simp add: registerHallCall_def)

lemma config_clearHallCall [simp]: "config (clearHallCall fl dir b) = config b"
  by (simp add: clearHallCall_def)

lemma elevators_clearHallCall [simp]: "elevators (clearHallCall fl dir b) = elevators b"
  by (simp add: clearHallCall_def)

lemma config_withElevator [simp]: "config (withElevator i f b) = config b"
  by (simp add: withElevator_def)

lemma floors_withElevator [simp]: "floors (withElevator i f b) = floors b"
  by (simp add: withElevator_def)

lemma config_putElevator [simp]: "config (putElevator i e b) = config b"
  by (simp add: putElevator_def)

lemma floors_putElevator [simp]: "floors (putElevator i e b) = floors b"
  by (simp add: putElevator_def)

text \<open>The definitions to unfold when a run is evaluated at a concrete state.\<close>

lemmas model_defs = Building_def Elevator_def Floor_def defaultConfig_def
  getElevator_def isValidElevator_def isValidFloor_def getNumElevators_def getNumFloors_def
  withElevator_def withFloor_def putElevator_def registerHallCall_def clearHallCall_def
  pressUpButton_def pressDownButton_def clearUpButton_def clearDownButton_def
  addCarCall_def removeCarCall_def hasAnyCarCalls_def startMoving_def decrementTick_def
  arriveAtFloor_def openDoors_def setDoorsOpen_def closeDoors_def setIdle_def
  map_find_def map_erase_def set_erase_def closest_def destinations_of_def INT_MAX_def Let_def

lemmas distributed_defs = DistributedController_def Distributed_handleHallCall_def
  getClaimsFor_def hasClaim_def releaseClaim_def decideNextAction_def tryClaimCalls_def
  Distributed_handleCarCall_def Distributed_onElevatorArrived_def Distributed_onDoorsOpened_def
  Distributed_onDoorsClosed_def Distributed_tick_def

lemmas master_defs = MasterController_def lock_def unlock_def calculateCost_def costToServe_def
  selectElevator_def Master_dispatchElevator_def Master_handleHallCall_def
  Master_handleCarCall_def getAssignment_def clearAssignment_def Master_onElevatorArrived_def
  Master_onDoorsOpened_def Master_onDoorsClosed_def Master_tick_def

lemmas engine_defs = SimulationEngine_def createScheduler_def EventQueue_def Event_def
  requestHallCall_def requestCarCall_def push_def tryPop_def inMaster_def inDistributed_def
  handleHallCall_def handleCarCall_def onElevatorArrived_def onDoorsOpened_def
  onDoorsClosed_def tick_def scheduled_def processEvent_def updateElevator_def
  updateElevators_def processTick_def runSimulationLoop_round_def getAllHallCalls_def
  drainEvents.simps

lemma runTicks_add:
  "runTicks (m + n) s = (case runTicks m s of Inl e \<Rightarrow> Inl e | Inr s' \<Rightarrow> runTicks n s')"
  by (induction m arbitrary: s) (simp_all split: sum.splits)

section \<open>The selection of a car by the master controller\<close>

lemma selectElevator_loop_spec:
  assumes "\<forall>i\<in>set is. isValidElevator b i"
  shows "\<exists>be' bc'. selectElevator_loop b fl dir is (be, bc) = Inr (be', bc') \<and> bc' \<le> bc \<and>
           (\<forall>i\<in>set is. bc' \<le> calculateCost b (elevators b ! nat i) fl dir) \<and>
           ((be', bc') = (be, bc) \<or>
            (\<exists>xs ys. is = xs @ be' # ys \<and>
                      bc' = calculateCost b (elevators b ! nat be') fl dir \<and> bc' < bc \<and>
                      (\<forall>x\<in>set xs. bc' < calculateCost b (elevators b ! nat x) fl dir)))"
  using assms
proof (induction "is" arbitrary: be bc)
  case Nil
  then show ?case by simp
next
  case (Cons i "is")
  let ?c = "calculateCost b (elevators b ! nat i) fl dir"
  from Cons.prems have valid: "isValidElevator b i" and rest: "\<forall>j\<in>set is. isValidElevator b j"
    by simp_all
  show ?case
  proof (cases "?c < bc")
    case True
    from Cons.IH [OF rest, of i ?c] obtain be' bc' where
      run: "selectElevator_loop b fl dir is (i, ?c) = Inr (be', bc')" and le: "bc' \<le> ?c"
      and all: "\<forall>j\<in>set is. bc' \<le> calculateCost b (elevators b ! nat j) fl dir"
      and how: "(be', bc') = (i, ?c) \<or>
            (\<exists>xs ys. is = xs @ be' # ys \<and>
                      bc' = calculateCost b (elevators b ! nat be') fl dir \<and> bc' < ?c \<and>
                      (\<forall>x\<in>set xs. bc' < calculateCost b (elevators b ! nat x) fl dir))"
      by blast
    have step: "selectElevator_loop b fl dir (i # is) (be, bc) = Inr (be', bc')"
      using valid True run by (simp add: getElevator_def Let_def)
    from how have "\<exists>xs ys. i # is = xs @ be' # ys \<and>
                      bc' = calculateCost b (elevators b ! nat be') fl dir \<and> bc' < bc \<and>
                      (\<forall>x\<in>set xs. bc' < calculateCost b (elevators b ! nat x) fl dir)"
    proof
      assume "(be', bc') = (i, ?c)"
      then have "i # is = [] @ be' # is \<and> bc' = calculateCost b (elevators b ! nat be') fl dir \<and> bc' < bc"
        using True by simp
      then show ?thesis by (metis empty_iff list.set(1))
    next
      assume "\<exists>xs ys. is = xs @ be' # ys \<and>
                      bc' = calculateCost b (elevators b ! nat be') fl dir \<and> bc' < ?c \<and>
                      (\<forall>x\<in>set xs. bc' < calculateCost b (elevators b ! nat x) fl dir)"
      then obtain xs ys where "is = xs @ be' # ys"
        and "bc' = calculateCost b (elevators b ! nat be') fl dir" and "bc' < ?c"
        and "\<forall>x\<in>set xs. bc' < calculateCost b (elevators b ! nat x) fl dir"
        by blast
      then have "i # is = (i # xs) @ be' # ys \<and>
                      bc' = calculateCost b (elevators b ! nat be') fl dir \<and> bc' < bc \<and>
                      (\<forall>x\<in>set (i # xs). bc' < calculateCost b (elevators b ! nat x) fl dir)"
        using True by simp
      then show ?thesis by blast
    qed
    with step le all True show ?thesis by auto
  next
    case False
    from Cons.IH [OF rest, of be bc] obtain be' bc' where
      run: "selectElevator_loop b fl dir is (be, bc) = Inr (be', bc')" and le: "bc' \<le> bc"
      and all: "\<forall>j\<in>set is. bc' \<le> calculateCost b (elevators b ! nat j) fl dir"
      and how: "(be', bc') = (be, bc) \<or>
            (\<exists>xs ys. is = xs @ be' # ys \<and>
                      bc' = calculateCost b (elevators b ! nat be') fl dir \<and> bc' < bc \<and>
                      (\<forall>x\<in>set xs. bc' < calculateCost b (elevators b ! nat x) fl dir))"
      by blast
    have step: "selectElevator_loop b fl dir (i # is) (be, bc) = Inr (be', bc')"
      using valid False run by (simp add: getElevator_def Let_def)
    from how have "(be', bc') = (be, bc) \<or> (\<exists>xs ys. i # is = xs @ be' # ys \<and>
                      bc' = calculateCost b (elevators b ! nat be') fl dir \<and> bc' < bc \<and>
                      (\<forall>x\<in>set xs. bc' < calculateCost b (elevators b ! nat x) fl dir))"
    proof
      assume "(be', bc') = (be, bc)"
      then show ?thesis by simp
    next
      assume "\<exists>xs ys. is = xs @ be' # ys \<and>
                      bc' = calculateCost b (elevators b ! nat be') fl dir \<and> bc' < bc \<and>
                      (\<forall>x\<in>set xs. bc' < calculateCost b (elevators b ! nat x) fl dir)"
      then obtain xs ys where "is = xs @ be' # ys"
        and "bc' = calculateCost b (elevators b ! nat be') fl dir" and "bc' < bc"
        and "\<forall>x\<in>set xs. bc' < calculateCost b (elevators b ! nat x) fl dir"
        by blast
      then have "i # is = (i # xs) @ be' # ys \<and>
                      bc' = calculateCost b (elevators b ! nat be') fl dir \<and> bc' < bc \<and>
                      (\<forall>x\<in>set (i # xs). bc' < calculateCost b (elevators b ! nat x) fl dir)"
        using False by simp
      then show ?thesis by blast
    qed
    with step le all False show ?thesis by auto
  qed
qed

lemma upto_split_before:
  assumes "[0..n] = xs @ k # ys" and "0 \<le> j" and "j < k"
  shows "j \<in> set xs"
proof -
  have "k \<in> set (xs @ k # ys)" by simp
  then have "k \<in> set [0..n]" by (simp only: assms(1))
  then have "k \<le> n" by simp
  with assms(2,3) have "j \<in> set [0..n]" by simp
  then have "j \<in> set (xs @ k # ys)" by (simp only: assms(1))
  then have "j \<in> set xs \<or> j = k \<or> j \<in> set ys" by auto
  moreover have "sorted (xs @ k # ys)" using sorted_upto [of 0 n] by (simp only: assms(1))
  then have "\<forall>y\<in>set ys. k \<le> y" by (simp add: sorted_append)
  ultimately show ?thesis using assms(3) by auto
qed

text \<open>
  \<^verbatim>\<open>selectElevator\<close> always returns.  When some car has a cost below \<^verbatim>\<open>INT_MAX\<close> it
  returns a car of minimum cost, and the one with the lowest id among those; otherwise
  (no car at all, in particular) it returns \<open>-1\<close>.
\<close>

lemma selectElevator_minimal:
  "\<exists>i. selectElevator b fl dir = Inr i \<and>
     (if \<exists>j. isValidElevator b j \<and> calculateCost b (elevators b ! nat j) fl dir < INT_MAX
      then isValidElevator b i \<and>
           (\<forall>j. isValidElevator b j \<longrightarrow>
                  calculateCost b (elevators b ! nat i) fl dir
                    \<le> calculateCost b (elevators b ! nat j) fl dir) \<and>
           (\<forall>j. isValidElevator b j \<and> j < i \<longrightarrow>
                  calculateCost b (elevators b ! nat i) fl dir
                    < calculateCost b (elevators b ! nat j) fl dir)
      else i = -1)"
proof -
  let ?is = "[0..getNumElevators b - 1]"
  let ?cost = "\<lambda>j. calculateCost b (elevators b ! nat j) fl dir"
  have valid: "\<forall>i\<in>set ?is. isValidElevator b i"
    by (auto simp: isValidElevator_def getNumElevators_def)
  have valid_iff: "\<And>j. isValidElevator b j \<longleftrightarrow> j \<in> set ?is"
    by (auto simp: isValidElevator_def getNumElevators_def)
  from selectElevator_loop_spec [OF valid, of fl dir "-1" INT_MAX] obtain be' bc' where
    run: "selectElevator_loop b fl dir ?is (-1, INT_MAX) = Inr (be', bc')" and le: "bc' \<le> INT_MAX"
    and all: "\<forall>j\<in>set ?is. bc' \<le> ?cost j"
    and how: "(be', bc') = (-1, INT_MAX) \<or>
            (\<exists>xs ys. ?is = xs @ be' # ys \<and> bc' = ?cost be' \<and> bc' < INT_MAX \<and>
                      (\<forall>x\<in>set xs. bc' < ?cost x))"
    by blast
  have sel: "selectElevator b fl dir = Inr be'"
    using run by (simp add: selectElevator_def)
  from how show ?thesis
  proof
    assume same: "(be', bc') = (-1, INT_MAX)"
    have "\<not> (\<exists>j. isValidElevator b j \<and> ?cost j < INT_MAX)"
    proof
      assume "\<exists>j. isValidElevator b j \<and> ?cost j < INT_MAX"
      then obtain j where j: "isValidElevator b j" "?cost j < INT_MAX" by blast
      then have "j \<in> set ?is" using valid_iff by blast
      then have "bc' \<le> ?cost j" using all by blast
      with same j show False by simp
    qed
    with sel same show ?thesis by auto
  next
    assume "\<exists>xs ys. ?is = xs @ be' # ys \<and> bc' = ?cost be' \<and> bc' < INT_MAX \<and>
                      (\<forall>x\<in>set xs. bc' < ?cost x)"
    then obtain xs ys where split: "?is = xs @ be' # ys" and c: "bc' = ?cost be'"
      and lt: "bc' < INT_MAX" and before: "\<forall>x\<in>set xs. bc' < ?cost x"
      by blast
    from split have mem: "be' \<in> set ?is" by simp
    then have v: "isValidElevator b be'" using valid by blast
    have ex: "\<exists>j. isValidElevator b j \<and> ?cost j < INT_MAX"
      using v c lt by auto
    have min: "\<forall>j. isValidElevator b j \<longrightarrow> ?cost be' \<le> ?cost j"
    proof (intro allI impI)
      fix j assume "isValidElevator b j"
      then have "j \<in> set ?is" using valid_iff by blast
      then have "bc' \<le> ?cost j" using all by blast
      with c show "?cost be' \<le> ?cost j" by simp
    qed
    have first: "\<forall>j. isValidElevator b j \<and> j < be' \<longrightarrow> ?cost be' < ?cost j"
    proof (intro allI impI)
      fix j assume "isValidElevator b j \<and> j < be'"
      then have "0 \<le> j" "j < be'" by (simp_all add: isValidElevator_def)
      from upto_split_before [OF split this] have "j \<in> set xs" .
      with before c show "?cost be' < ?cost j" by auto
    qed
    from sel ex v min first show ?thesis by auto
  qed
qed

section \<open>Facts about the calls of the schedulers\<close>

lemma map_find_map_assign: "map_find (map_assign k v m) k' = (if k' = k then Some v else map_find m k')"
  by (induction m) (auto simp: map_find_def)







lemma unlock_lock: "\<not> mutex m \<Longrightarrow> lock m = Inr (m\<lparr>mutex := True\<rparr>) \<and> unlock (m\<lparr>mutex := True\<rparr>) = m"
  by (cases m) (simp add: lock_def unlock_def)

lemma Master_handleHallCall_returns:
  assumes "Master_handleHallCall fl dir b m = Inr (b', m')"
  shows "\<not> mutex m \<and> \<not> mutex m' \<and>
         (if map_find (assignments m) (fl, dir) \<noteq> None then b' = b \<and> m' = m
          else b' = registerHallCall fl dir b \<and>
               (\<exists>i. selectElevator b' fl dir = Inr i \<and>
                    (if 0 \<le> i
                     then m' = m\<lparr>assignments := map_assign (fl, dir) i (assignments m)\<rparr> \<and>
                          isValidElevator b i \<and> state (elevators b ! nat i) \<noteq> ElevatorState.Idle
                     else m' = m)))"
proof -
  from assms have free: "\<not> mutex m"
    by (auto simp: Master_handleHallCall_def lock_def split: if_splits)
  note ul = unlock_lock [OF free]
  show ?thesis
  proof (cases "map_find (assignments m) (fl, dir) \<noteq> None")
    case True
    with assms ul free show ?thesis
      by (auto simp: Master_handleHallCall_def)
  next
    case False
    let ?b1 = "registerHallCall fl dir b"
    from selectElevator_minimal [of ?b1 fl dir] obtain i where sel: "selectElevator ?b1 fl dir = Inr i"
      by blast
    show ?thesis
    proof (cases "0 \<le> i")
      case neg: False
      with assms ul free False sel show ?thesis
        by (auto simp: Master_handleHallCall_def Let_def)
    next
      case True
      let ?m2 = "m\<lparr>mutex := True, assignments := map_assign (fl, dir) i (assignments m)\<rparr>"
      from assms ul False sel True obtain b2 m2 where
        disp: "Master_dispatchElevator i ?b1 ?m2 = Inr (b2, m2)" and res: "b' = b2" "m' = unlock m2"
        by (auto simp: Master_handleHallCall_def Let_def split: sum.splits)
      from disp have valid: "isValidElevator ?b1 i"
        by (auto simp: Master_dispatchElevator_def getElevator_def split: if_splits)
      from disp valid have busy: "state (elevators ?b1 ! nat i) \<noteq> ElevatorState.Idle"
        by (auto simp: Master_dispatchElevator_def getElevator_def lock_def split: if_splits)
      from disp valid busy have same: "b2 = ?b1" "m2 = ?m2"
        by (auto simp: Master_dispatchElevator_def getElevator_def)
      have "unlock ?m2 = m\<lparr>assignments := map_assign (fl, dir) i (assignments m)\<rparr>"
        using free by (cases m) (simp add: unlock_def)
      with res same valid busy sel True False free show ?thesis
        by (auto simp: isValidElevator_def unlock_def)
    qed
  qed
qed










lemma putElevator_same [simp]: "putElevator i (elevators b ! nat i) b = b"
  by (simp add: putElevator_def)

lemma withElevator_put: "withElevator i f b = putElevator i (f (elevators b ! nat i)) b"
  by (simp add: withElevator_def putElevator_def)

lemma putElevator_twice [simp]: "putElevator i e (putElevator i e' b) = putElevator i e b"
  by (simp add: putElevator_def)





lemma isValidElevator_putElevator [simp]:
  "isValidElevator (putElevator i e b) j = isValidElevator b j"
  by (simp add: isValidElevator_def)

lemma isValidFloor_putElevator [simp]:
  "isValidFloor (putElevator i e b) fl = isValidFloor b fl"
  by (simp add: isValidFloor_def)






text \<open>
  A new hall call for the master controller, by the state of the car selected: a busy
  car is left alone and the call returns; for an idle car \<^verbatim>\<open>dispatchElevator\<close> goes on to
  lock the mutex that \<^verbatim>\<open>handleHallCall\<close> holds.
\<close>

lemma Master_handleHallCall_busy_car:
  assumes "\<not> mutex m" and "map_find (assignments m) (fl, dir) = None"
    and "selectElevator (registerHallCall fl dir b) fl dir = Inr i" and "0 \<le> i"
    and "isValidElevator b i" and "state (elevators b ! nat i) \<noteq> ElevatorState.Idle"
  shows "Master_handleHallCall fl dir b m =
           Inr (registerHallCall fl dir b, m\<lparr>assignments := map_assign (fl, dir) i (assignments m)\<rparr>)"
proof -
  have "unlock (m\<lparr>mutex := True, assignments := map_assign (fl, dir) i (assignments m)\<rparr>) =
        m\<lparr>assignments := map_assign (fl, dir) i (assignments m)\<rparr>"
    using assms(1) by (cases m) (simp add: unlock_def)
  with assms show ?thesis
    by (simp add: Master_handleHallCall_def lock_def Master_dispatchElevator_def getElevator_def
          isValidElevator_def Let_def)
qed

lemma Master_handleHallCall_idle_car:
  assumes "\<not> mutex m" and "map_find (assignments m) (fl, dir) = None"
    and "selectElevator (registerHallCall fl dir b) fl dir = Inr i" and "0 \<le> i"
    and "isValidElevator b i" and "state (elevators b ! nat i) = ElevatorState.Idle"
  shows "Master_handleHallCall fl dir b m = Inl Deadlock"
  using assms
  by (simp add: Master_handleHallCall_def lock_def Master_dispatchElevator_def getElevator_def
        isValidElevator_def Let_def)

lemma registerHallCall_invalid: "\<not> isValidFloor b fl \<Longrightarrow> registerHallCall fl dir b = b"
  by (simp add: registerHallCall_def)




section \<open>What the calls change in the building\<close>

lemma same_floors_refl [simp]: "same_floors b b"
  by (simp add: same_floors_def)

lemma same_floors_trans: "same_floors b b' \<Longrightarrow> same_floors b' b'' \<Longrightarrow> same_floors b b''"
  by (simp add: same_floors_def)

lemma same_floors_putElevator [simp]: "same_floors b (putElevator i e b)"
  by (simp add: same_floors_def)

lemma same_floors_withElevator [simp]: "same_floors b (withElevator i f b)"
  by (simp add: same_floors_def)

lemma hasHallCall_same_floors: "same_floors b b' \<Longrightarrow> hasHallCall b' fl dir = hasHallCall b fl dir"
  by (simp add: same_floors_def hasHallCall_def isValidFloor_def)

lemma Master_dispatchElevator_floors:
  "Master_dispatchElevator i b m = Inr (b', m') \<Longrightarrow> same_floors b b'"
  by (auto simp: Master_dispatchElevator_def Let_def split: sum.splits if_splits)

lemma decideNextAction_floors: "decideNextAction i b d = Inr b' \<Longrightarrow> same_floors b b'"
  by (auto simp: decideNextAction_def Let_def split: sum.splits if_splits)

lemma Master_tick_loop_floors: "Master_tick_loop is b m = Inr (b', m') \<Longrightarrow> same_floors b b'"
proof (induction "is" arbitrary: b m)
  case Nil
  then show ?case by simp
next
  case (Cons i "is")
  then show ?case
    by (auto split: sum.splits if_splits
             dest!: Master_dispatchElevator_floors intro: same_floors_trans)
qed

lemma Distributed_tick_loop_floors: "Distributed_tick_loop is b d = Inr (b', d') \<Longrightarrow> same_floors b b'"
proof (induction "is" arbitrary: b d)
  case Nil
  then show ?case by simp
next
  case (Cons i "is")
  then show ?case
    by (auto split: sum.splits if_splits
             dest!: decideNextAction_floors intro: same_floors_trans)
qed

lemma tick_floors: "tick b sch = Inr (b', sch') \<Longrightarrow> same_floors b b'"
  by (cases sch)
     (auto simp: tick_def inMaster_def inDistributed_def Master_tick_def Distributed_tick_def
           split: sum.splits dest: Master_tick_loop_floors Distributed_tick_loop_floors)

lemma handleCarCall_floors: "handleCarCall i fl b sch = Inr (b', sch') \<Longrightarrow> same_floors b b'"
  by (cases sch)
     (auto simp: handleCarCall_def inMaster_def inDistributed_def Master_handleCarCall_def
                 Distributed_handleCarCall_def
           split: sum.splits if_splits
           dest!: Master_dispatchElevator_floors decideNextAction_floors
           simp: same_floors_def)

lemma onDoorsClosed_floors: "onDoorsClosed i b sch = Inr (b', sch') \<Longrightarrow> same_floors b b'"
  by (cases sch)
     (auto simp: onDoorsClosed_def inMaster_def inDistributed_def Master_onDoorsClosed_def
                 Distributed_onDoorsClosed_def
           split: sum.splits dest: Master_dispatchElevator_floors decideNextAction_floors)

lemma onDoorsOpened_floors: "onDoorsOpened i fl b sch = Inr (b', sch') \<Longrightarrow> same_floors b b'"
  by (cases sch)
     (auto simp: onDoorsOpened_def inMaster_def inDistributed_def Master_onDoorsOpened_def
                 Distributed_onDoorsOpened_def)

lemma hasHallCall_withElevator [simp]: "hasHallCall (withElevator i f b) fl dir = hasHallCall b fl dir"
  by (simp add: hasHallCall_def isValidFloor_def)

lemma hasHallCall_putElevator [simp]: "hasHallCall (putElevator i e b) fl dir = hasHallCall b fl dir"
  by (simp add: hasHallCall_def isValidFloor_def)

lemma length_floors_withFloor [simp]: "length (floors (withFloor fl f b)) = length (floors b)"
  by (simp add: withFloor_def)

lemma length_floors_clearHallCall [simp]:
  "length (floors (clearHallCall fl dir b)) = length (floors b)"
  by (simp add: clearHallCall_def)

lemma length_floors_registerHallCall [simp]:
  "length (floors (registerHallCall fl dir b)) = length (floors b)"
  by (simp add: registerHallCall_def)

lemma hasHallCall_clearHallCall:
  "hasHallCall (clearHallCall fl dir b) fl' dir' \<Longrightarrow> hasHallCall b fl' dir'"
  by (cases "nat (fl - 1) < length (floors b)")
     (auto simp: hasHallCall_def clearHallCall_def isValidFloor_def withFloor_def
                 clearUpButton_def clearDownButton_def nth_list_update list_update_beyond not_less
           split: if_splits)

lemma hasHallCall_registerHallCall:
  "hasHallCall (registerHallCall fl dir b) fl' dir' \<Longrightarrow>
   hasHallCall b fl' dir' \<or> (isValidFloor b fl \<and> fl' = fl \<and> dir' = dir \<and> (dir = Up \<or> dir = Down))"
  by (cases "nat (fl - 1) < length (floors b)")
     (auto simp: hasHallCall_def registerHallCall_def isValidFloor_def withFloor_def
                 pressUpButton_def pressDownButton_def nth_list_update list_update_beyond not_less
           split: if_splits)

lemma onElevatorArrived_shape:
  assumes "onElevatorArrived i fl b sch = Inr (b', sch')"
  shows "\<exists>elev. getElevator b i = Inr elev \<and>
           (b' = withElevator i (removeCarCall fl) b \<or>
            b' = withElevator i (removeCarCall fl) (clearHallCall fl (direction elev) b))"
  using assms
  by (cases sch)
     (auto simp: onElevatorArrived_def inMaster_def inDistributed_def
                 Master_onElevatorArrived_def Distributed_onElevatorArrived_def
                 getAssignment_def clearAssignment_def Let_def
           split: sum.splits if_splits)

lemma onElevatorArrived_buttons:
  assumes "onElevatorArrived i fl b sch = Inr (b', sch')"
  shows "config b' = config b \<and> length (floors b') = length (floors b) \<and>
         (hasHallCall b' fl' dir' \<longrightarrow> hasHallCall b fl' dir')"
proof -
  from onElevatorArrived_shape [OF assms] obtain elev :: Elevator where
    "b' = withElevator i (removeCarCall fl) b \<or>
     b' = withElevator i (removeCarCall fl) (clearHallCall fl (direction elev) b)"
    by blast
  then show ?thesis
  proof
    assume "b' = withElevator i (removeCarCall fl) b"
    then show ?thesis by simp
  next
    assume "b' = withElevator i (removeCarCall fl) (clearHallCall fl (direction elev) b)"
    then show ?thesis
      using hasHallCall_clearHallCall [of fl "direction elev" b fl' dir'] by simp
  qed
qed

lemma handleHallCall_buttons:
  assumes "handleHallCall fl dir b sch = Inr (b', sch')"
  shows "config b' = config b \<and> length (floors b') = length (floors b) \<and>
         (hasHallCall b' fl' dir' \<longrightarrow>
            hasHallCall b fl' dir' \<or>
            (isValidFloor b fl \<and> fl' = fl \<and> dir' = dir \<and> (dir = Up \<or> dir = Down)))"
proof (cases sch)
  case (MasterS m)
  with assms obtain m' where run: "Master_handleHallCall fl dir b m = Inr (b', m')"
    by (auto simp: handleHallCall_def inMaster_def split: sum.splits)
  from Master_handleHallCall_returns [OF run]
  have "b' = b \<or> b' = registerHallCall fl dir b" by (auto split: if_splits)
  then show ?thesis using hasHallCall_registerHallCall [of fl dir b fl' dir'] by auto
next
  case (DistributedS d)
  with assms have "b' = registerHallCall fl dir b"
    by (auto simp: handleHallCall_def inDistributed_def Distributed_handleHallCall_def Let_def
             split: if_splits)
  then show ?thesis using hasHallCall_registerHallCall [of fl dir b fl' dir'] by auto
qed

section \<open>The invariant of the runs of the engine\<close>

lemma updateElevator_frame:
  assumes "updateElevator i s = Inr s'"
  shows "same_floors (building s) (building s') \<and>
         (\<forall>ev\<in>set (queue (eventQueue s')). ev \<in> set (queue (eventQueue s)) \<or> ev_type ev \<noteq> HallCall)"
  using assms
  by (auto simp: updateElevator_def Let_def push_def Event_def split: sum.splits if_splits)

lemma updateElevators_loop_frame:
  "updateElevators_loop is s = Inr s' \<Longrightarrow>
   same_floors (building s) (building s') \<and>
   (\<forall>ev\<in>set (queue (eventQueue s')). ev \<in> set (queue (eventQueue s)) \<or> ev_type ev \<noteq> HallCall)"
proof (induction "is" arbitrary: s)
  case Nil
  then show ?case by simp
next
  case (Cons i "is")
  from Cons.prems obtain s1 where one: "updateElevator i s = Inr s1"
    and rest: "updateElevators_loop is s1 = Inr s'"
    by (auto split: sum.splits)
  from updateElevator_frame [OF one] Cons.IH [OF rest] show ?case
    by (blast intro: same_floors_trans)
qed

lemma scheduled_frame:
  "scheduled s r = Inr s' \<Longrightarrow> \<exists>b sch. r = Inr (b, sch) \<and> s' = s\<lparr>building := b, scheduler := sch\<rparr>"
  by (auto simp: scheduled_def split: sum.splits)

lemma processTick_frame:
  assumes "processTick s = Inr s'"
  shows "same_floors (building s) (building s') \<and>
         (\<forall>ev\<in>set (queue (eventQueue s')). ev \<in> set (queue (eventQueue s)) \<or> ev_type ev \<noteq> HallCall)"
proof -
  from assms obtain s1 where upd: "updateElevators s = Inr s1"
    and sched: "scheduled s1 (tick (building s1) (scheduler s1)) = Inr s'"
    by (auto simp: processTick_def split: sum.splits)
  from scheduled_frame [OF sched] obtain b sch where
    t: "tick (building s1) (scheduler s1) = Inr (b, sch)" and s': "s' = s1\<lparr>building := b, scheduler := sch\<rparr>"
    by blast
  from upd have "same_floors (building s) (building s1) \<and>
         (\<forall>ev\<in>set (queue (eventQueue s1)). ev \<in> set (queue (eventQueue s)) \<or> ev_type ev \<noteq> HallCall)"
    unfolding updateElevators_def by (rule updateElevators_loop_frame)
  moreover from tick_floors [OF t] have "same_floors (building s1) b" .
  ultimately show ?thesis using s' by (auto intro: same_floors_trans)
qed

lemma boundary_inv_same_floors:
  assumes "boundary_inv cfg s" and "same_floors (building s) (building s')"
    and "\<forall>ev\<in>set (queue (eventQueue s')). ev \<in> set (queue (eventQueue s)) \<or> ev_type ev \<noteq> HallCall"
  shows "boundary_inv cfg s'"
  using assms hasHallCall_same_floors [OF assms(2)]
  by (auto simp: boundary_inv_def same_floors_def)

lemma boundary_inv_constructed: "boundary_inv cfg (SimulationEngine cfg)"
proof -
  have "\<not> hasHallCall (Building cfg) fl dir" for fl dir
    by (auto simp: hasHallCall_def isValidFloor_def Building_def Floor_def)
  then show ?thesis
    by (simp add: boundary_inv_def SimulationEngine_def EventQueue_def) (simp add: Building_def)
qed

lemma boundary_inv_requestHallCall:
  "boundary_inv cfg s \<Longrightarrow> boundary_inv cfg (requestHallCall fl dir s)"
  by (cases dir)
     (auto simp: boundary_inv_def requestHallCall_def push_def Event_def acceptedHallCall_def
                 isValidFloor_def getNumFloors_def)

lemma boundary_inv_requestCarCall:
  "boundary_inv cfg s \<Longrightarrow> boundary_inv cfg (requestCarCall i fl s)"
  by (auto simp: boundary_inv_def requestCarCall_def push_def Event_def)

lemma boundary_inv_processEvent:
  assumes inv: "boundary_inv cfg s" and popped: "tryPop (eventQueue s) = (Some event, q)"
    and run: "processEvent event (s\<lparr>eventQueue := q\<rparr>) = Inr s'"
  shows "boundary_inv cfg s'"
proof -
  from popped have q: "queue (eventQueue s) = event # queue q"
    by (cases "queue (eventQueue s)") (auto simp: tryPop_def split: if_splits)
  let ?s = "s\<lparr>eventQueue := q\<rparr>"
  let ?b = "building s"
  from inv q have inv0: "boundary_inv cfg ?s"
    by (simp add: boundary_inv_def)
  from inv q have ev: "ev_type event = HallCall \<longrightarrow> acceptedHallCall cfg (ev_floor event) (ev_direction event)"
    by (simp add: boundary_inv_def)
  have keep: "boundary_inv cfg (?s\<lparr>building := b, scheduler := sch\<rparr>)"
    if "config b = config ?b" and "length (floors b) = length (floors ?b)"
      and "\<And>fl dir. hasHallCall b fl dir \<Longrightarrow> acceptedHallCall cfg fl dir" for b sch
    using inv0 that by (simp add: boundary_inv_def)
  have old: "\<And>fl dir. hasHallCall ?b fl dir \<Longrightarrow> acceptedHallCall cfg fl dir"
    using inv by (simp add: boundary_inv_def)
  show ?thesis
  proof (cases "ev_type event")
    case HallCall
    with run have "scheduled ?s (handleHallCall (ev_floor event) (ev_direction event) ?b (scheduler s)) = Inr s'"
      by (simp add: processEvent_def)
    from scheduled_frame [OF this] obtain b sch where
      call: "handleHallCall (ev_floor event) (ev_direction event) ?b (scheduler s) = Inr (b, sch)"
      and s': "s' = ?s\<lparr>building := b, scheduler := sch\<rparr>"
      by auto
    note f = handleHallCall_buttons [OF call]
    have "acceptedHallCall cfg fl dir" if "hasHallCall b fl dir" for fl dir
      using f [of fl dir] that old [of fl dir] ev HallCall by auto
    with f show ?thesis unfolding s' by (intro keep) simp_all
  next
    case CarCall
    with run have "scheduled ?s (handleCarCall (ev_elevatorId event) (ev_floor event) ?b (scheduler s)) = Inr s'"
      by (simp add: processEvent_def)
    from scheduled_frame [OF this] obtain b sch where
      call: "handleCarCall (ev_elevatorId event) (ev_floor event) ?b (scheduler s) = Inr (b, sch)"
      and s': "s' = ?s\<lparr>building := b, scheduler := sch\<rparr>"
      by auto
    from handleCarCall_floors [OF call] have sf: "same_floors ?b b" .
    have "acceptedHallCall cfg fl dir" if "hasHallCall b fl dir" for fl dir
      using that old [of fl dir] hasHallCall_same_floors [OF sf, of fl dir] by simp
    with sf show ?thesis unfolding s' by (intro keep) (simp_all add: same_floors_def)
  next
    case ElevatorArrived
    with run have "scheduled ?s (onElevatorArrived (ev_elevatorId event) (ev_floor event) ?b (scheduler s)) = Inr s'"
      by (simp add: processEvent_def)
    from scheduled_frame [OF this] obtain b sch where
      call: "onElevatorArrived (ev_elevatorId event) (ev_floor event) ?b (scheduler s) = Inr (b, sch)"
      and s': "s' = ?s\<lparr>building := b, scheduler := sch\<rparr>"
      by auto
    note f = onElevatorArrived_buttons [OF call]
    have "acceptedHallCall cfg fl dir" if "hasHallCall b fl dir" for fl dir
      using f [of fl dir] that old [of fl dir] by auto
    with f show ?thesis unfolding s' by (intro keep) simp_all
  next
    case DoorsOpened
    with run have "scheduled ?s (onDoorsOpened (ev_elevatorId event) (ev_floor event) ?b (scheduler s)) = Inr s'"
      by (simp add: processEvent_def)
    from scheduled_frame [OF this] obtain b sch where
      call: "onDoorsOpened (ev_elevatorId event) (ev_floor event) ?b (scheduler s) = Inr (b, sch)"
      and s': "s' = ?s\<lparr>building := b, scheduler := sch\<rparr>"
      by auto
    from onDoorsOpened_floors [OF call] have sf: "same_floors ?b b" .
    have "acceptedHallCall cfg fl dir" if "hasHallCall b fl dir" for fl dir
      using that old [of fl dir] hasHallCall_same_floors [OF sf, of fl dir] by simp
    with sf show ?thesis unfolding s' by (intro keep) (simp_all add: same_floors_def)
  next
    case DoorsClosed
    with run have "scheduled ?s (onDoorsClosed (ev_elevatorId event) ?b (scheduler s)) = Inr s'"
      by (simp add: processEvent_def)
    from scheduled_frame [OF this] obtain b sch where
      call: "onDoorsClosed (ev_elevatorId event) ?b (scheduler s) = Inr (b, sch)"
      and s': "s' = ?s\<lparr>building := b, scheduler := sch\<rparr>"
      by auto
    from onDoorsClosed_floors [OF call] have sf: "same_floors ?b b" .
    have "acceptedHallCall cfg fl dir" if "hasHallCall b fl dir" for fl dir
      using that old [of fl dir] hasHallCall_same_floors [OF sf, of fl dir] by simp
    with sf show ?thesis unfolding s' by (intro keep) (simp_all add: same_floors_def)
  next
    case Tick
    with run inv0 show ?thesis by (auto simp: processEvent_def)
  next
    case Shutdown
    with run inv0 show ?thesis by (auto simp: processEvent_def boundary_inv_def)
  qed
qed

lemma boundary_inv_reachable: "reachable cfg s \<Longrightarrow> boundary_inv cfg s"
proof (induction rule: reachable.induct)
  case constructed
  show ?case by (rule boundary_inv_constructed)
next
  case (hall_request s fl dir)
  then show ?case by (simp add: boundary_inv_requestHallCall)
next
  case (car_request s i fl)
  then show ?case by (simp add: boundary_inv_requestCarCall)
next
  case (ticked s s')
  from processTick_frame [OF ticked.hyps(2)] ticked.IH
  have "boundary_inv cfg s'" by (blast intro: boundary_inv_same_floors)
  then show ?case by (simp add: boundary_inv_def)
next
  case (event_processed s event q s')
  then show ?case by (blast intro: boundary_inv_processEvent)
next
  case (started s)
  then show ?case by (simp add: boundary_inv_def)
next
  case (stopped s)
  then show ?case by (simp add: boundary_inv_def shutdown_def)
qed

section \<open>The cars in the runs of the engine\<close>

text \<open>
  Whatever the engine and the schedulers do to a car, they do through the public
  operations of \<^verbatim>\<open>Elevator\<close>.
\<close>

lemma reachable_cars_putElevator:
  "reachable_cars b \<Longrightarrow> (nat i < length (elevators b) \<Longrightarrow> reachable_Elevator e) \<Longrightarrow>
   reachable_cars (putElevator i e b)"
  by (cases "nat i < length (elevators b)")
     (auto simp: reachable_cars_def putElevator_def list_all_iff list_update_beyond not_less
           dest: set_update_subset_insert [THEN subsetD])

lemma reachable_cars_nth:
  "reachable_cars b \<Longrightarrow> nat i < length (elevators b) \<Longrightarrow> reachable_Elevator (elevators b ! nat i)"
  by (simp add: reachable_cars_def list_all_length)

lemma reachable_cars_withElevator:
  assumes "reachable_cars b" and "\<And>e. reachable_Elevator e \<Longrightarrow> reachable_Elevator (f e)"
  shows "reachable_cars (withElevator i f b)"
  unfolding withElevator_put
  using assms by (intro reachable_cars_putElevator) (auto dest: reachable_cars_nth)

lemma reachable_cars_registerHallCall [simp]:
  "reachable_cars (registerHallCall fl dir b) = reachable_cars b"
  by (simp add: reachable_cars_def)

lemma reachable_cars_clearHallCall [simp]:
  "reachable_cars (clearHallCall fl dir b) = reachable_cars b"
  by (simp add: reachable_cars_def)

lemma Master_dispatchElevator_cars:
  "Master_dispatchElevator i b m = Inr (b', m') \<Longrightarrow> reachable_cars b \<Longrightarrow> reachable_cars b'"
  by (auto simp: Master_dispatchElevator_def Let_def split: sum.splits if_splits
           intro!: reachable_cars_withElevator r_openDoors r_startMoving)

lemma decideNextAction_cars:
  "decideNextAction i b d = Inr b' \<Longrightarrow> reachable_cars b \<Longrightarrow> reachable_cars b'"
  by (auto simp: decideNextAction_def Let_def split: sum.splits if_splits
           intro!: reachable_cars_withElevator r_openDoors r_startMoving)

lemma Master_tick_loop_cars:
  "Master_tick_loop is b m = Inr (b', m') \<Longrightarrow> reachable_cars b \<Longrightarrow> reachable_cars b'"
proof (induction "is" arbitrary: b m)
  case Nil
  then show ?case by simp
next
  case (Cons i "is")
  then show ?case
    by (auto split: sum.splits if_splits dest: Master_dispatchElevator_cars)
qed

lemma Distributed_tick_loop_cars:
  "Distributed_tick_loop is b d = Inr (b', d') \<Longrightarrow> reachable_cars b \<Longrightarrow> reachable_cars b'"
proof (induction "is" arbitrary: b d)
  case Nil
  then show ?case by simp
next
  case (Cons i "is")
  then show ?case
    by (auto split: sum.splits if_splits dest: decideNextAction_cars)
qed

lemma tick_cars: "tick b sch = Inr (b', sch') \<Longrightarrow> reachable_cars b \<Longrightarrow> reachable_cars b'"
  by (cases sch)
     (auto simp: tick_def inMaster_def inDistributed_def Master_tick_def Distributed_tick_def
           split: sum.splits dest: Master_tick_loop_cars Distributed_tick_loop_cars)

lemma handleHallCall_cars:
  assumes "handleHallCall fl dir b sch = Inr (b', sch')" and "reachable_cars b"
  shows "reachable_cars b'"
proof (cases sch)
  case (MasterS m)
  with assms obtain m' where run: "Master_handleHallCall fl dir b m = Inr (b', m')"
    by (auto simp: handleHallCall_def inMaster_def split: sum.splits)
  from Master_handleHallCall_returns [OF run]
  have "b' = b \<or> b' = registerHallCall fl dir b" by (auto split: if_splits)
  with assms(2) show ?thesis by auto
next
  case (DistributedS d)
  with assms have "b' = registerHallCall fl dir b"
    by (auto simp: handleHallCall_def inDistributed_def Distributed_handleHallCall_def Let_def
             split: if_splits)
  with assms(2) show ?thesis by simp
qed

lemma handleCarCall_cars:
  "handleCarCall i fl b sch = Inr (b', sch') \<Longrightarrow> reachable_cars b \<Longrightarrow> reachable_cars b'"
  by (cases sch)
     (auto simp: handleCarCall_def inMaster_def inDistributed_def Master_handleCarCall_def
                 Distributed_handleCarCall_def
           split: sum.splits if_splits
           dest!: Master_dispatchElevator_cars decideNextAction_cars
           intro!: reachable_cars_withElevator r_addCarCall)

lemma onElevatorArrived_cars:
  assumes "onElevatorArrived i fl b sch = Inr (b', sch')" and "reachable_cars b"
  shows "reachable_cars b'"
proof -
  from onElevatorArrived_shape [OF assms(1)] obtain elev :: Elevator where
    "b' = withElevator i (removeCarCall fl) b \<or>
     b' = withElevator i (removeCarCall fl) (clearHallCall fl (direction elev) b)"
    by blast
  with assms(2) show ?thesis
    by (auto intro!: reachable_cars_withElevator r_removeCarCall)
qed

lemma onDoorsOpened_cars:
  "onDoorsOpened i fl b sch = Inr (b', sch') \<Longrightarrow> reachable_cars b \<Longrightarrow> reachable_cars b'"
  by (cases sch)
     (auto simp: onDoorsOpened_def inMaster_def inDistributed_def Master_onDoorsOpened_def
                 Distributed_onDoorsOpened_def)

lemma onDoorsClosed_cars:
  "onDoorsClosed i b sch = Inr (b', sch') \<Longrightarrow> reachable_cars b \<Longrightarrow> reachable_cars b'"
  by (cases sch)
     (auto simp: onDoorsClosed_def inMaster_def inDistributed_def Master_onDoorsClosed_def
                 Distributed_onDoorsClosed_def
           split: sum.splits dest: Master_dispatchElevator_cars decideNextAction_cars)

lemma updateElevator_building:
  assumes "updateElevator i s = Inr s'"
  shows "building s' =
           putElevator i
             (carAfterTick (doorOpenTicks (engineConfig s)) (getAllHallCalls (building s) \<noteq> [])
                (elevators (building s) ! nat i))
             (building s)"
proof -
  from assms obtain elev where get: "getElevator (building s) i = Inr elev"
    by (auto simp: updateElevator_def split: sum.splits)
  then have elev: "elev = elevators (building s) ! nat i"
    by (auto simp: getElevator_def split: if_splits)
  from assms get show ?thesis
    unfolding elev [symmetric]
    by (cases "state elev")
       (auto simp: updateElevator_def carAfterTick_def Let_def elev split: if_splits)
qed

lemma reachable_carAfterTick:
  "reachable_Elevator elev \<Longrightarrow> reachable_Elevator (carAfterTick openTicks work elev)"
  by (auto simp: carAfterTick_def Let_def
           intro!: r_decrementTick r_arriveAtFloor r_setDoorsOpen r_closeDoors r_setIdle)

lemma updateElevator_cars:
  assumes "updateElevator i s = Inr s'" and "reachable_cars (building s)"
  shows "reachable_cars (building s')"
  unfolding updateElevator_building [OF assms(1)]
  using assms(2)
  by (intro reachable_cars_putElevator) (auto intro: reachable_carAfterTick dest: reachable_cars_nth)

lemma updateElevators_loop_cars:
  "updateElevators_loop is s = Inr s' \<Longrightarrow> reachable_cars (building s) \<Longrightarrow>
   reachable_cars (building s')"
proof (induction "is" arbitrary: s)
  case Nil
  then show ?case by simp
next
  case (Cons i "is")
  then show ?case by (auto split: sum.splits dest: updateElevator_cars)
qed

lemma processTick_cars:
  assumes "processTick s = Inr s'" and "reachable_cars (building s)"
  shows "reachable_cars (building s')"
proof -
  from assms(1) obtain s1 where upd: "updateElevators s = Inr s1"
    and sched: "scheduled s1 (tick (building s1) (scheduler s1)) = Inr s'"
    by (auto simp: processTick_def split: sum.splits)
  from scheduled_frame [OF sched] obtain b sch where
    t: "tick (building s1) (scheduler s1) = Inr (b, sch)" and s': "s' = s1\<lparr>building := b, scheduler := sch\<rparr>"
    by blast
  from upd assms(2) have "reachable_cars (building s1)"
    unfolding updateElevators_def by (rule updateElevators_loop_cars)
  with tick_cars [OF t] s' show ?thesis by simp
qed

lemma processEvent_cars:
  assumes "processEvent event s = Inr s'" and "reachable_cars (building s)"
  shows "reachable_cars (building s')"
proof (cases "ev_type event")
  case HallCall
  with assms(1) have "scheduled s (handleHallCall (ev_floor event) (ev_direction event) (building s) (scheduler s)) = Inr s'"
    by (simp add: processEvent_def)
  from scheduled_frame [OF this] assms(2) show ?thesis
    by (auto dest: handleHallCall_cars)
next
  case CarCall
  with assms(1) have "scheduled s (handleCarCall (ev_elevatorId event) (ev_floor event) (building s) (scheduler s)) = Inr s'"
    by (simp add: processEvent_def)
  from scheduled_frame [OF this] assms(2) show ?thesis
    by (auto dest: handleCarCall_cars)
next
  case ElevatorArrived
  with assms(1) have "scheduled s (onElevatorArrived (ev_elevatorId event) (ev_floor event) (building s) (scheduler s)) = Inr s'"
    by (simp add: processEvent_def)
  from scheduled_frame [OF this] assms(2) show ?thesis
    by (auto dest: onElevatorArrived_cars)
next
  case DoorsOpened
  with assms(1) have "scheduled s (onDoorsOpened (ev_elevatorId event) (ev_floor event) (building s) (scheduler s)) = Inr s'"
    by (simp add: processEvent_def)
  from scheduled_frame [OF this] assms(2) show ?thesis
    by (auto dest: onDoorsOpened_cars)
next
  case DoorsClosed
  with assms(1) have "scheduled s (onDoorsClosed (ev_elevatorId event) (building s) (scheduler s)) = Inr s'"
    by (simp add: processEvent_def)
  from scheduled_frame [OF this] assms(2) show ?thesis
    by (auto dest: onDoorsClosed_cars)
next
  case Tick
  with assms show ?thesis by (auto simp: processEvent_def)
next
  case Shutdown
  with assms show ?thesis by (auto simp: processEvent_def)
qed

lemma reachable_cars_reachable: "reachable cfg s \<Longrightarrow> reachable_cars (building s)"
proof (induction rule: reachable.induct)
  case constructed
  show ?case
    by (simp add: SimulationEngine_def Building_def reachable_cars_def list_all_iff r_init)
next
  case (hall_request s fl dir)
  then show ?case by (simp add: requestHallCall_def)
next
  case (car_request s i fl)
  then show ?case by (simp add: requestCarCall_def)
next
  case (ticked s s')
  then show ?case by (auto dest: processTick_cars)
next
  case (event_processed s event q s')
  from processEvent_cars [OF event_processed.hyps(3)] event_processed.IH show ?case by simp
next
  case (started s)
  then show ?case by simp
next
  case (stopped s)
  then show ?case by simp
qed

lemma hallCall5_reachable: "reachable scenarioD_config hallCall5"
proof -
  let ?s0 = "SimulationEngine scenarioD_config"
  let ?ev = "\<lparr>ev_type = HallCall, ev_floor = 5, ev_elevatorId = -1, ev_direction = Up\<rparr>"
  have req: "requestHallCall 5 Up ?s0 = ?s0\<lparr>eventQueue := push ?ev EventQueue\<rparr>"
    by (simp add: requestHallCall_def SimulationEngine_def Building_def isValidFloor_def
          getNumFloors_def scenarioD_config_def defaultConfig_def Event_def)
  have "reachable scenarioD_config (requestHallCall 5 Up ?s0)"
    by (intro hall_request constructed)
  moreover have "tryPop (eventQueue (requestHallCall 5 Up ?s0)) = (Some ?ev, EventQueue)"
    by (simp add: req) (simp add: tryPop_def push_def EventQueue_def)
  moreover have "processEvent ?ev ((requestHallCall 5 Up ?s0)\<lparr>eventQueue := EventQueue\<rparr>) = Inr hallCall5"
    by (simp add: req)
       (simp add: processEvent_def scheduled_def handleHallCall_def inDistributed_def
          Distributed_handleHallCall_def SimulationEngine_def createScheduler_def
          scenarioD_config_def defaultConfig_def DistributedController_def map_find_def
          hallCall5_def Let_def)
  ultimately show ?thesis by (rule event_processed)
qed

section \<open>One call of updateElevators\<close>

lemma updateElevator_result:
  assumes "isValidElevator (building s) i"
  shows "updateElevator i s =
           Inr (s\<lparr>building :=
                    putElevator i
                      (carAfterTick (doorOpenTicks (engineConfig s))
                         (getAllHallCalls (building s) \<noteq> []) (elevators (building s) ! nat i))
                      (building s),
                  eventQueue :=
                    (eventQueue s)\<lparr>queue := queue (eventQueue s) @
                      eventsAfterTick i (getAllHallCalls (building s) \<noteq> [])
                        (elevators (building s) ! nat i)\<rparr>\<rparr>)"
  using assms
  by (cases "state (elevators (building s) ! nat i)")
     (auto simp: updateElevator_def carAfterTick_def eventsAfterTick_def getElevator_def Let_def
                 push_def Event_def)

lemma getAllHallCalls_putElevator [simp]:
  "getAllHallCalls (putElevator i e b) = getAllHallCalls b"
  by (simp add: getAllHallCalls_def)

lemma updateElevators_loop_result:
  assumes "distinct is" and "\<forall>i\<in>set is. isValidElevator (building s) i"
  shows "\<exists>s'. updateElevators_loop is s = Inr s' \<and>
           length (elevators (building s')) = length (elevators (building s)) \<and>
           (\<forall>k. 0 \<le> k \<longrightarrow> nat k < length (elevators (building s)) \<longrightarrow>
                elevators (building s') ! nat k =
                  (if k \<in> set is
                   then carAfterTick (doorOpenTicks (engineConfig s))
                          (getAllHallCalls (building s) \<noteq> []) (elevators (building s) ! nat k)
                   else elevators (building s) ! nat k)) \<and>
           floors (building s') = floors (building s) \<and>
           config (building s') = config (building s) \<and>
           queue (eventQueue s') =
             queue (eventQueue s) @
             concat (map (\<lambda>i. eventsAfterTick i (getAllHallCalls (building s) \<noteq> [])
                                 (elevators (building s) ! nat i)) is)"
  using assms
proof (induction "is" arbitrary: s)
  case Nil
  then show ?case by simp
next
  case (Cons i "is")
  let ?open = "doorOpenTicks (engineConfig s)"
  let ?work = "getAllHallCalls (building s) \<noteq> []"
  let ?car = "\<lambda>k. elevators (building s) ! nat k"
  let ?s1 = "s\<lparr>building := putElevator i (carAfterTick ?open ?work (?car i)) (building s),
               eventQueue := (eventQueue s)\<lparr>queue := queue (eventQueue s) @
                   eventsAfterTick i ?work (?car i)\<rparr>\<rparr>"
  from Cons.prems have valid: "isValidElevator (building s) i" and notin: "i \<notin> set is"
    and dist: "distinct is" and rest: "\<forall>j\<in>set is. isValidElevator (building ?s1) j"
    by simp_all
  have one: "updateElevator i s = Inr ?s1" using valid by (rule updateElevator_result)
  from valid have i0: "0 \<le> i" by (simp add: isValidElevator_def)
  have same: "elevators (putElevator i (carAfterTick ?open ?work (?car i)) (building s)) ! nat j = ?car j"
    if "j \<in> set is" for j
  proof -
    from that Cons.prems(2) have "0 \<le> j" by (simp add: isValidElevator_def)
    moreover from that notin have "j \<noteq> i" by blast
    ultimately have "nat j \<noteq> nat i" using i0 by simp
    then show ?thesis by (simp add: putElevator_def)
  qed
  from Cons.IH [OF dist rest] obtain s' where
    run: "updateElevators_loop is ?s1 = Inr s'"
    and len: "length (elevators (building s')) = length (elevators (building ?s1))"
    and cars: "\<forall>k. 0 \<le> k \<longrightarrow> nat k < length (elevators (building ?s1)) \<longrightarrow>
                elevators (building s') ! nat k =
                  (if k \<in> set is
                   then carAfterTick (doorOpenTicks (engineConfig ?s1))
                          (getAllHallCalls (building ?s1) \<noteq> []) (elevators (building ?s1) ! nat k)
                   else elevators (building ?s1) ! nat k)"
    and fl: "floors (building s') = floors (building ?s1)"
    and cf: "config (building s') = config (building ?s1)"
    and qu: "queue (eventQueue s') =
             queue (eventQueue ?s1) @
             concat (map (\<lambda>j. eventsAfterTick j (getAllHallCalls (building ?s1) \<noteq> [])
                                 (elevators (building ?s1) ! nat j)) is)"
    by blast
  have loop: "updateElevators_loop (i # is) s = Inr s'"
    using one run by simp
  have len': "length (elevators (building s')) = length (elevators (building s))"
    using len by (simp add: putElevator_def)
  have cars1: "elevators (building s') ! nat k =
                  (if k \<in> set is then carAfterTick ?open ?work (elevators (building ?s1) ! nat k)
                   else elevators (building ?s1) ! nat k)"
    if "0 \<le> k" and "nat k < length (elevators (building s))" for k
  proof -
    from that have "nat k < length (elevators (building ?s1))" by (simp add: putElevator_def)
    with cars that(1) have "elevators (building s') ! nat k =
                  (if k \<in> set is
                   then carAfterTick (doorOpenTicks (engineConfig ?s1))
                          (getAllHallCalls (building ?s1) \<noteq> []) (elevators (building ?s1) ! nat k)
                   else elevators (building ?s1) ! nat k)"
      by blast
    then show ?thesis by simp
  qed
  have cars': "elevators (building s') ! nat k =
                  (if k \<in> set (i # is) then carAfterTick ?open ?work (?car k) else ?car k)"
    if "0 \<le> k" and "nat k < length (elevators (building s))" for k
  proof (cases "k \<in> set is")
    case True
    with cars1 [OF that] same [OF True] show ?thesis by simp
  next
    case False
    with cars1 [OF that] have "elevators (building s') ! nat k = elevators (building ?s1) ! nat k"
      by simp
    also have "\<dots> = (if k = i then carAfterTick ?open ?work (?car k) else ?car k)"
      using that i0 by (auto simp: putElevator_def)
    finally show ?thesis using False by simp
  qed
  have meq: "map (\<lambda>j. eventsAfterTick j ?work
                  (elevators (putElevator i (carAfterTick ?open ?work (?car i)) (building s)) ! nat j)) is =
        map (\<lambda>j. eventsAfterTick j ?work (?car j)) is"
    by (rule map_cong) (simp_all add: same)
  from qu have "queue (eventQueue s') =
      queue (eventQueue s) @ eventsAfterTick i ?work (?car i) @
      concat (map (\<lambda>j. eventsAfterTick j ?work
                  (elevators (putElevator i (carAfterTick ?open ?work (?car i)) (building s)) ! nat j)) is)"
    by simp
  then have qu': "queue (eventQueue s') =
      queue (eventQueue s) @ concat (map (\<lambda>j. eventsAfterTick j ?work (?car j)) (i # is))"
    unfolding meq by simp
  from loop len' cars' fl cf qu' show ?case by simp
qed

text \<open>
  One call of \<^verbatim>\<open>updateElevators\<close> on a building with as many cars as its configuration
  says: it returns, every car is the car of \<open>carAfterTick\<close>, the floors stay as they
  are, and the events of the cars are queued in the order of the car ids.
\<close>

lemma updateElevators_every_car:
  assumes "length (elevators (building s)) = nat (numElevators (config (building s)))"
  shows "\<exists>s'. updateElevators s = Inr s' \<and>
           elevators (building s') =
             map (carAfterTick (doorOpenTicks (engineConfig s)) (getAllHallCalls (building s) \<noteq> []))
                 (elevators (building s)) \<and>
           floors (building s') = floors (building s) \<and>
           config (building s') = config (building s) \<and>
           queue (eventQueue s') =
             queue (eventQueue s) @
             concat (map (\<lambda>i. eventsAfterTick i (getAllHallCalls (building s) \<noteq> [])
                                 (elevators (building s) ! nat i))
                         [0..numElevators (config (building s)) - 1])"
proof -
  let ?is = "[0..numElevators (config (building s)) - 1]"
  have "distinct ?is" by simp
  moreover have "\<forall>i\<in>set ?is. isValidElevator (building s) i"
    by (auto simp: isValidElevator_def)
  ultimately obtain s' where
    run: "updateElevators_loop ?is s = Inr s'"
    and len: "length (elevators (building s')) = length (elevators (building s))"
    and cars: "\<forall>k. 0 \<le> k \<longrightarrow> nat k < length (elevators (building s)) \<longrightarrow>
                elevators (building s') ! nat k =
                  (if k \<in> set ?is
                   then carAfterTick (doorOpenTicks (engineConfig s))
                          (getAllHallCalls (building s) \<noteq> []) (elevators (building s) ! nat k)
                   else elevators (building s) ! nat k)"
    and rest: "floors (building s') = floors (building s)"
      "config (building s') = config (building s)"
      "queue (eventQueue s') =
             queue (eventQueue s) @
             concat (map (\<lambda>i. eventsAfterTick i (getAllHallCalls (building s) \<noteq> [])
                                 (elevators (building s) ! nat i)) ?is)"
    using updateElevators_loop_result [of ?is s] by blast
  have "elevators (building s') =
          map (carAfterTick (doorOpenTicks (engineConfig s)) (getAllHallCalls (building s) \<noteq> []))
              (elevators (building s))"
  proof (rule nth_equalityI)
    show "length (elevators (building s')) =
          length (map (carAfterTick (doorOpenTicks (engineConfig s)) (getAllHallCalls (building s) \<noteq> []))
                     (elevators (building s)))"
      using len by simp
  next
    fix n assume "n < length (elevators (building s'))"
    with len have n: "n < length (elevators (building s))" by simp
    with assms have "int n \<in> set ?is" by auto
    with cars n have "elevators (building s') ! nat (int n) =
        carAfterTick (doorOpenTicks (engineConfig s)) (getAllHallCalls (building s) \<noteq> [])
          (elevators (building s) ! nat (int n))"
      by (metis nat_int of_nat_0_le_iff)
    with n show "elevators (building s') ! n =
        map (carAfterTick (doorOpenTicks (engineConfig s)) (getAllHallCalls (building s) \<noteq> []))
            (elevators (building s)) ! n"
      by simp
  qed
  with run rest show ?thesis by (simp add: updateElevators_def getNumElevators_def)
qed

section \<open>Arrival at a floor\<close>

text \<open>One round of the loop of the driver, for a car that arrives.\<close>

lemma updateElevator_arrival:
  assumes "getElevator (building s) i = Inr elev" and "state elev = Moving"
    and "ticksRemaining (decrementTick elev) = 0"
  shows "updateElevator i s =
     Inr (s\<lparr>building :=
              putElevator i
                (elev\<lparr>currentFloor :=
                         (if direction elev = Up then currentFloor elev + 1 else currentFloor elev - 1),
                      state := DoorsOpening, ticksRemaining := 0\<rparr>)
                (building s),
            eventQueue :=
              push \<lparr>ev_type = ElevatorArrived,
                    ev_floor =
                      (if direction elev = Up then currentFloor elev + 1 else currentFloor elev - 1),
                    ev_elevatorId = i, ev_direction = Direction.Idle\<rparr>
                (eventQueue s)\<rparr>)"
  using assms
  by (cases elev)
     (auto simp: updateElevator_def Let_def decrementTick_def arriveAtFloor_def Event_def
           split: if_splits)

lemma carAfterTick_arrival:
  assumes "state elev = Moving" and "ticksRemaining (decrementTick elev) = 0"
  shows "carAfterTick openTicks work elev =
           elev\<lparr>currentFloor :=
                  (if direction elev = Up then currentFloor elev + 1 else currentFloor elev - 1),
                state := DoorsOpening, ticksRemaining := 0\<rparr>"
    and "eventsAfterTick i work elev =
           [\<lparr>ev_type = ElevatorArrived,
             ev_floor = (if direction elev = Up then currentFloor elev + 1 else currentFloor elev - 1),
             ev_elevatorId = i, ev_direction = Direction.Idle\<rparr>]"
  using assms
  by (cases elev; auto simp: carAfterTick_def eventsAfterTick_def Let_def decrementTick_def
                         arriveAtFloor_def split: if_splits)+

text \<open>
  C1 (as amended).  In a building that has the cars its configuration counts, a call of
  the driver returns, and for every car that is Moving and whose timer reaches 0 on this
  tick it has moved the car one floor (up when its direction is Up, down otherwise),
  set its state to DoorsOpening and queued ElevatorArrived with the car's id and the new
  floor.  \<^verbatim>\<open>arriveAtFloor\<close> does not touch the timer: it stays at 0 and is not set to
  \<^verbatim>\<open>doorOpenTicks\<close>.
\<close>

theorem arrival_transition:
  assumes "length (elevators (building s)) = nat (numElevators (config (building s)))"
    and "isValidElevator (building s) i"
    and "state (elevators (building s) ! nat i) = Moving"
    and "ticksRemaining (decrementTick (elevators (building s) ! nat i)) = 0"
  shows "\<exists>s' evs.
           updateElevators s = Inr s' \<and>
           elevators (building s') ! nat i =
             (elevators (building s) ! nat i)
               \<lparr>currentFloor :=
                  (if direction (elevators (building s) ! nat i) = Up
                   then currentFloor (elevators (building s) ! nat i) + 1
                   else currentFloor (elevators (building s) ! nat i) - 1),
                state := DoorsOpening, ticksRemaining := 0\<rparr> \<and>
           queue (eventQueue s') = queue (eventQueue s) @ evs \<and>
           \<lparr>ev_type = ElevatorArrived,
            ev_floor =
              (if direction (elevators (building s) ! nat i) = Up
               then currentFloor (elevators (building s) ! nat i) + 1
               else currentFloor (elevators (building s) ! nat i) - 1),
            ev_elevatorId = i, ev_direction = Direction.Idle\<rparr> \<in> set evs"
proof -
  let ?elev = "elevators (building s) ! nat i"
  let ?work = "getAllHallCalls (building s) \<noteq> []"
  let ?is = "[0..numElevators (config (building s)) - 1]"
  let ?evs = "concat (map (\<lambda>j. eventsAfterTick j ?work (elevators (building s) ! nat j)) ?is)"
  from updateElevators_every_car [OF assms(1)] obtain s' where
    run: "updateElevators s = Inr s'"
    and cars: "elevators (building s') =
                 map (carAfterTick (doorOpenTicks (engineConfig s)) ?work) (elevators (building s))"
    and events: "queue (eventQueue s') = queue (eventQueue s) @ ?evs"
    by blast
  from assms(1,2) have i: "nat i < length (elevators (building s))" and "i \<in> set ?is"
    by (auto simp: isValidElevator_def)
  then have "set (eventsAfterTick i ?work ?elev) \<subseteq> set ?evs" by auto
  with carAfterTick_arrival(2) [OF assms(3,4), of i ?work]
  have "\<lparr>ev_type = ElevatorArrived,
         ev_floor = (if direction ?elev = Up then currentFloor ?elev + 1 else currentFloor ?elev - 1),
         ev_elevatorId = i, ev_direction = Direction.Idle\<rparr> \<in> set ?evs"
    by simp
  moreover from cars i have "elevators (building s') ! nat i =
      carAfterTick (doorOpenTicks (engineConfig s)) ?work ?elev"
    by simp
  ultimately show ?thesis
    using run events carAfterTick_arrival(1) [OF assms(3,4)] by auto
qed

lemma movingCar_facts:
  shows "length (elevators (building movingCar)) = nat (numElevators (config (building movingCar)))"
    and "isValidElevator (building movingCar) 0"
    and "state (elevators (building movingCar) ! nat 0) = Moving"
    and "ticksRemaining (decrementTick (elevators (building movingCar) ! nat 0)) = 0"
    and "elevators (building movingCar) ! nat 0 = startMoving Up 1 (Elevator 0 6 1)"
    and "queue (eventQueue movingCar) = []"
  by (simp_all add: movingCar_def SimulationEngine_def Building_def defaultConfig_def
        withElevator_def upto.simps isValidElevator_def startMoving_def decrementTick_def
        EventQueue_def)

theorem arrival_transition_witness:
  "length (elevators (building movingCar)) = nat (numElevators (config (building movingCar))) \<and>
   isValidElevator (building movingCar) 0 \<and>
   state (elevators (building movingCar) ! nat 0) = Moving \<and>
   ticksRemaining (decrementTick (elevators (building movingCar) ! nat 0)) = 0 \<and>
   (\<exists>s' evs.
      updateElevators movingCar = Inr s' \<and>
      elevators (building s') ! nat 0 =
        (Elevator 0 6 1)\<lparr>direction := Up, currentFloor := 2, state := DoorsOpening,
                          ticksRemaining := 0\<rparr> \<and>
      queue (eventQueue s') = evs \<and>
      \<lparr>ev_type = ElevatorArrived, ev_floor = 2, ev_elevatorId = 0,
       ev_direction = Direction.Idle\<rparr> \<in> set evs)"
proof -
  note f = movingCar_facts
  from arrival_transition [OF f(1-4)] f show ?thesis
    by (simp add: startMoving_def Elevator_def)
qed

text \<open>
  C1 as the specification states it fails: with \<^verbatim>\<open>doorOpenTicks = 3\<close> the car that arrives is in
  DoorsOpening with 0 ticks remaining.
\<close>

theorem arrival_timer_counterexample:
  "state (elevators (building movingCar) ! 0) = Moving \<and>
   ticksRemaining (decrementTick (elevators (building movingCar) ! 0)) = 0 \<and>
   doorOpenTicks (engineConfig movingCar) = 3 \<and>
   map_sum id state (elevatorAfter (updateElevators movingCar) 0) = Inr DoorsOpening \<and>
   map_sum id ticksRemaining (elevatorAfter (updateElevators movingCar) 0) = Inr 0"
  by (simp add: movingCar_def SimulationEngine_def Building_def defaultConfig_def Elevator_def
        withElevator_def startMoving_def upto.simps updateElevators_def updateElevator_def
        getElevator_def getNumElevators_def
        isValidElevator_def decrementTick_def arriveAtFloor_def putElevator_def elevatorAfter_def
        Let_def)

section \<open>Scenario C: the directional penalty\<close>

text \<open>
  C2 (as amended).  With car 0 at floor 2 moving up (car call 7) and car 1 idle at
  floor 6, the costs of the hall call (5, Up) are 3 for car 0 and 1 for car 1, and the
  selection made by \<^verbatim>\<open>handleHallCall\<close> returns car 1, the cheaper one.  With car 0 moving
  down its cost is 3 + 20 = 23 and car 1 is selected again.
\<close>

theorem scenarioC_selects_car1:
  "calculateCost (scenarioC Up) (elevators (scenarioC Up) ! 0) 5 Up = 3 \<and>
   calculateCost (scenarioC Up) (elevators (scenarioC Up) ! 1) 5 Up = 1 \<and>
   selectElevator (registerHallCall 5 Up (scenarioC Up)) 5 Up = Inr 1 \<and>
   calculateCost (scenarioC Down) (elevators (scenarioC Down) ! 0) 5 Up = 23 \<and>
   calculateCost (scenarioC Down) (elevators (scenarioC Down) ! 1) 5 Up = 1 \<and>
   selectElevator (registerHallCall 5 Up (scenarioC Down)) 5 Up = Inr 1"
  by (simp add: selectElevator_def getNumElevators_def getElevator_def isValidElevator_def
        calculateCost_def costToServe_def getNumFloors_def INT_MAX_def
        scenarioC_def defaultConfig_def Elevator_def startMoving_def addCarCall_def
        upto_0_1 Let_def)

text \<open>C2 as the specification states it fails: car 0 is not the car selected in the first case.\<close>

theorem scenarioC_counterexample:
  "selectElevator (registerHallCall 5 Up (scenarioC Up)) 5 Up \<noteq> Inr 0"
  by (simp add: selectElevator_def getNumElevators_def getElevator_def isValidElevator_def
        calculateCost_def costToServe_def getNumFloors_def INT_MAX_def
        scenarioC_def defaultConfig_def Elevator_def startMoving_def addCarCall_def
        upto_0_1 Let_def)

section \<open>Scenario D: claims of the distributed controller\<close>

lemma scenarioD_first_value:
  "scenarioD_first =
     Inr (withElevator 0 (startMoving Up 2)
            (registerHallCall 5 Up (Building scenarioD_config)),
          \<lparr>claimBoard = [((5, Up), 0)]\<rparr>)"
  by (simp add: scenarioD_first_def scenarioD_config_def model_defs distributed_defs upto.simps)

lemma scenarioD_second_value:
  "scenarioD_second =
     Inr (withElevator 0 (startMoving Up 2)
            (registerHallCall 6 Up (registerHallCall 5 Up (Building scenarioD_config))),
          \<lparr>claimBoard = [((5, Up), 0), ((6, Up), 0)]\<rparr>)"
  by (simp add: scenarioD_second_def scenarioD_first_value)
     (simp add: scenarioD_config_def model_defs distributed_defs upto.simps)

text \<open>
  The same in the engine, where a request is handled at the end of the round that finds
  it and claimed in the next: car 0 holds both claims, and it is at floor 2 with its
  doors opening when it takes the second.
\<close>

lemma scenarioD_engine_claims:
  "map_sum id scheduler scenarioD_engine_first = Inr (DistributedS \<lparr>claimBoard = [((5, Up), 0)]\<rparr>) \<and>
   map_sum id scheduler scenarioD_engine_second =
     Inr (DistributedS \<lparr>claimBoard = [((5, Up), 0), ((6, Up), 0)]\<rparr>)"
proof -
  have first: "scenarioD_engine_first =
      Inr ((SimulationEngine scenarioD_config)
             \<lparr>building := withElevator 0 (startMoving Up 2)
                             (registerHallCall 5 Up (Building scenarioD_config)),
              scheduler := DistributedS \<lparr>claimBoard = [((5, Up), 0)]\<rparr>,
              currentTick := 2\<rparr>)"
    unfolding scenarioD_engine_first_def
    by (simp add: eval_nat_numeral scenarioD_config_def model_defs distributed_defs engine_defs
          upto.simps)
  have second: "map_sum id scheduler scenarioD_engine_second =
      Inr (DistributedS \<lparr>claimBoard = [((5, Up), 0), ((6, Up), 0)]\<rparr>)"
    unfolding scenarioD_engine_second_def first
    by (simp add: eval_nat_numeral scenarioD_config_def model_defs distributed_defs engine_defs
          upto.simps)
  show ?thesis
    unfolding second unfolding first by simp
qed

text \<open>
  C3 (as amended).  After \<^verbatim>\<open>handleHallCall(5, Up)\<close> and one \<^verbatim>\<open>tick()\<close> the claim board maps
  (5, Up) to car 0, which has started to move up and has no car call.  After
  \<^verbatim>\<open>handleHallCall(6, Up)\<close> and another \<^verbatim>\<open>tick()\<close> it is again car 0 that holds the claim
  for (6, Up): a car without car calls claims whether it is idle or not, and car 0 is
  asked first.  Car 1 holds no claim.
\<close>

theorem scenarioD_claims:
  "claimAfter scenarioD_first (5, Up) = Inr (Some 0) \<and>
   claimsAfter scenarioD_first 1 = Inr [] \<and>
   claimAfter scenarioD_second (5, Up) = Inr (Some 0) \<and>
   claimAfter scenarioD_second (6, Up) = Inr (Some 0) \<and>
   claimsAfter scenarioD_second 0 = Inr [(5, Up), (6, Up)] \<and>
   claimsAfter scenarioD_second 1 = Inr []"
  by (simp add: scenarioD_first_value scenarioD_second_value claimAfter_def claimsAfter_def
        map_find_def getClaimsFor_def)

text \<open>C3 as the specification states it fails: car 1 does not hold the claim for (6, Up).\<close>

theorem scenarioD_counterexample:
  "claimAfter scenarioD_second (6, Up) \<noteq> Inr (Some 1)"
  by (simp add: scenarioD_second_value claimAfter_def map_find_def)

section \<open>Scenario B: a hall call for the master controller\<close>

text \<open>
  C4.  With two idle cars at floor 1, \<^verbatim>\<open>selectElevator(8, Up)\<close> picks car 0 (both cost 7,
  the lower id wins).  \<^verbatim>\<open>handleHallCall(8, Up)\<close> then stores the assignment and calls
  \<^verbatim>\<open>dispatchElevator(0)\<close> while its own \<^verbatim>\<open>lock_guard\<close> is alive; car 0 is idle, so
  \<^verbatim>\<open>dispatchElevator\<close> locks the same mutex again and the call never returns.  The engine
  meets the same end in the first round that finds the event.
\<close>

theorem scenarioB_deadlock:
  "selectElevator (registerHallCall 8 Up (Building scenarioB_config)) 8 Up = Inr 0 \<and>
   Master_dispatchElevator 0 (registerHallCall 8 Up (Building scenarioB_config))
     \<lparr>assignments = [((8, Up), 0)], mutex = True\<rparr> = Inl Deadlock \<and>
   Master_handleHallCall 8 Up (Building scenarioB_config) MasterController = Inl Deadlock \<and>
   runSimulationLoop_round scenarioB_engine = Inl Deadlock"
  by (simp add: scenarioB_config_def scenarioB_engine_def model_defs master_defs upto.simps
        runSimulationLoop_round_def processTick_def updateElevators_def updateElevator_def
        SimulationEngine_def createScheduler_def EventQueue_def requestHallCall_def push_def
        Event_def scheduled_def tick_def inMaster_def tryPop_def processEvent_def
        handleHallCall_def drainEvents.simps)

section \<open>Repeated hall calls and car calls\<close>




section \<open>Closing the doors\<close>

text \<open>
  What the driver does with a car whose doors are open, and with one whose doors are
  closing, on the tick on which the timer reaches 0.
\<close>

lemma doors_open_transition:
  assumes "getElevator (building s) i = Inr elev" and "state elev = DoorsOpen"
    and "ticksRemaining (decrementTick elev) = 0"
  shows "updateElevator i s =
           Inr (s\<lparr>building := putElevator i (elev\<lparr>state := DoorsClosing, ticksRemaining := 1\<rparr>)
                                 (building s)\<rparr>)"
  using assms
  by (cases elev) (auto simp: updateElevator_def Let_def decrementTick_def closeDoors_def
                         split: if_splits)

lemma doors_closing_transition:
  assumes "getElevator (building s) i = Inr elev" and "state elev = DoorsClosing"
    and "ticksRemaining (decrementTick elev) = 0"
  shows "updateElevator i s =
           (if hasAnyCarCalls elev \<or> getAllHallCalls (building s) \<noteq> []
            then Inr (s\<lparr>building := putElevator i (elev\<lparr>ticksRemaining := 0\<rparr>) (building s),
                        eventQueue := push \<lparr>ev_type = DoorsClosed, ev_floor = -1, ev_elevatorId = i,
                                            ev_direction = Direction.Idle\<rparr> (eventQueue s)\<rparr>)
            else Inr (s\<lparr>building := putElevator i
                                       (elev\<lparr>state := ElevatorState.Idle,
                                             direction := Direction.Idle, ticksRemaining := 0\<rparr>)
                                       (building s)\<rparr>))"
  using assms
  by (cases elev) (auto simp: updateElevator_def Let_def decrementTick_def setIdle_def
                         hasAnyCarCalls_def Event_def split: if_splits)

text \<open>
  Neither scheduler moves a car whose doors are closing: \<^verbatim>\<open>onDoorsClosed\<close> only calls the
  dispatcher, and both dispatchers return at once for a car that is not idle.
\<close>

lemma onDoorsClosed_not_idle:
  assumes "getElevator b i = Inr elev" and "state elev \<noteq> ElevatorState.Idle"
  shows "onDoorsClosed i b sch = Inr (b, sch)"
  using assms
  by (cases sch)
     (simp_all add: onDoorsClosed_def Master_onDoorsClosed_def Master_dispatchElevator_def
        Distributed_onDoorsClosed_def decideNextAction_def inMaster_def inDistributed_def)

lemma seven_rounds: "runTicks 7 (carCallTo3 ty) = Inr (stuckCar ty 1 7)"
  by (cases ty)
     (simp_all add: eval_nat_numeral carCallTo3_def scenarioA_config_def stuckCar_def
        model_defs master_defs distributed_defs engine_defs upto.simps)

lemma round_stuck:
  "ticks = 0 \<or> ticks = 1 \<Longrightarrow> runSimulationLoop_round (stuckCar ty ticks t) = Inr (stuckCar ty 0 (t + 1))"
  by (cases ty)
     (auto simp add: scenarioA_config_def stuckCar_def model_defs master_defs distributed_defs
        engine_defs upto.simps)

lemma rounds_stuck: "runTicks n (stuckCar ty 0 t) = Inr (stuckCar ty 0 (t + int n))"
  by (induction n arbitrary: t) (simp_all add: round_stuck add.assoc)

text \<open>
  C6.  The engine of scenario A after \<^verbatim>\<open>requestCarCall(0, 3)\<close>, with either scheduler: in
  round 7 the car, stopped at floor 2 on its way, goes from DoorsOpen to DoorsClosing
  with one tick on the timer.  In round 8 the timer reaches 0 and DoorsClosed is queued
  (the car call 3 is pending), but the car stays in DoorsClosing, and so it does in
  every later round: the closing of the doors never ends and floor 3 is never reached.
\<close>

theorem doors_closing_never_ends:
  "runTicks 7 (carCallTo3 ty) = Inr (stuckCar ty 1 7) \<and>
   runTicks (8 + n) (carCallTo3 ty) = Inr (stuckCar ty 0 (8 + int n)) \<and>
   map state (elevators (building (stuckCar ty 0 (8 + int n)))) = [DoorsClosing]"
proof -
  have "runTicks (7 + Suc n) (carCallTo3 ty) = Inr (stuckCar ty 0 (8 + int n))"
    by (simp only: runTicks_add seven_rounds) (simp add: round_stuck rounds_stuck)
  moreover have "7 + Suc n = 8 + n" by simp
  ultimately have "runTicks (8 + n) (carCallTo3 ty) = Inr (stuckCar ty 0 (8 + int n))"
    by simp
  then show ?thesis
    by (simp add: seven_rounds) (simp add: stuckCar_def)
qed

section \<open>The idle invariant of a car\<close>

lemma idle_inv_reachable: "reachable_Elevator e \<Longrightarrow> idle_inv e"
  by (induction rule: reachable_Elevator.induct)
     (auto simp: idle_inv_def Elevator_def addCarCall_def removeCarCall_def
        startMoving_def decrementTick_def arriveAtFloor_def openDoors_def setDoorsOpen_def
        closeDoors_def setIdle_def boardPassenger_def alightPassenger_def)

text \<open>
  C7.  A car whose state is Idle has direction Idle and no ticks remaining: this holds
  for a newly constructed car, each of startMoving, decrementTick, arriveAtFloor,
  openDoors, setDoorsOpen, closeDoors and setIdle preserves it, and so it holds in
  every state of a car that its operations can reach, and of every car in every state
  of a run of the engine.
\<close>

theorem idle_invariant_preserved:
  "idle_inv (Elevator i cap startFloor) \<and>
   (idle_inv e \<longrightarrow>
      idle_inv (startMoving dir t e) \<and> idle_inv (decrementTick e) \<and>
      idle_inv (arriveAtFloor fl e) \<and> idle_inv (openDoors t e) \<and>
      idle_inv (setDoorsOpen t e) \<and> idle_inv (closeDoors t e) \<and> idle_inv (setIdle e)) \<and>
   (reachable_Elevator r \<longrightarrow>
      (state r = ElevatorState.Idle \<longrightarrow> direction r = Direction.Idle \<and> ticksRemaining r = 0)) \<and>
   (reachable cfg s \<longrightarrow>
      (\<forall>c\<in>set (elevators (building s)).
         state c = ElevatorState.Idle \<longrightarrow> direction c = Direction.Idle \<and> ticksRemaining c = 0))"
proof (intro conjI impI ballI)
  show "idle_inv (Elevator i cap startFloor)"
    by (simp add: idle_inv_def Elevator_def)
next
  assume e: "idle_inv e"
  show "idle_inv (startMoving dir t e)" by (simp add: idle_inv_def startMoving_def)
  show "idle_inv (decrementTick e)" using e by (auto simp: idle_inv_def decrementTick_def)
  show "idle_inv (arriveAtFloor fl e)" by (simp add: idle_inv_def arriveAtFloor_def)
  show "idle_inv (openDoors t e)" by (simp add: idle_inv_def openDoors_def)
  show "idle_inv (setDoorsOpen t e)" by (simp add: idle_inv_def setDoorsOpen_def)
  show "idle_inv (closeDoors t e)" by (simp add: idle_inv_def closeDoors_def)
  show "idle_inv (setIdle e)" by (simp add: idle_inv_def setIdle_def)
next
  assume "reachable_Elevator r" and "state r = ElevatorState.Idle"
  then show "direction r = Direction.Idle" and "ticksRemaining r = 0"
    using idle_inv_reachable [of r] by (simp_all add: idle_inv_def)
next
  fix c
  assume "reachable cfg s" and "c \<in> set (elevators (building s))"
  then have "reachable_Elevator c"
    using reachable_cars_reachable [of cfg s] by (simp add: reachable_cars_def list_all_iff)
  moreover assume "state c = ElevatorState.Idle"
  ultimately show "direction c = Direction.Idle" and "ticksRemaining c = 0"
    using idle_inv_reachable [of c] by (simp_all add: idle_inv_def)
qed

theorem idle_invariant_preserved_witness:
  "idle_inv (Elevator 0 6 1) \<and>
   idle_inv (decrementTick (Elevator 0 6 1)) \<and>
   idle_inv (setIdle (startMoving Up 2 (Elevator 0 6 1))) \<and>
   reachable_Elevator (setIdle (startMoving Up 2 (Elevator 0 6 1))) \<and>
   state (setIdle (startMoving Up 2 (Elevator 0 6 1))) = ElevatorState.Idle \<and>
   direction (setIdle (startMoving Up 2 (Elevator 0 6 1))) = Direction.Idle \<and>
   ticksRemaining (setIdle (startMoving Up 2 (Elevator 0 6 1))) = 0 \<and>
   reachable scenarioD_config hallCall5 \<and>
   list_all idle_inv (elevators (building hallCall5))"
proof -
  have init: "idle_inv (Elevator 0 6 1)"
    using idle_invariant_preserved [of 0 6 1] by simp
  have step: "idle_inv (decrementTick (Elevator 0 6 1))"
    using idle_invariant_preserved [of 0 6 1 "Elevator 0 6 1"] init by simp
  have moving: "idle_inv (startMoving Up 2 (Elevator 0 6 1))"
    using idle_invariant_preserved [of 0 6 1 "Elevator 0 6 1" Up 2] init by simp
  have idle: "idle_inv (setIdle (startMoving Up 2 (Elevator 0 6 1)))"
    using idle_invariant_preserved [of 0 6 1 "startMoving Up 2 (Elevator 0 6 1)"] moving by simp
  have reach: "reachable_Elevator (setIdle (startMoving Up 2 (Elevator 0 6 1)))"
    by (intro r_setIdle r_startMoving r_init)
  have st: "state (setIdle (startMoving Up 2 (Elevator 0 6 1))) = ElevatorState.Idle"
    by (simp add: setIdle_def)
  from reach st
  have "direction (setIdle (startMoving Up 2 (Elevator 0 6 1))) = Direction.Idle \<and>
        ticksRemaining (setIdle (startMoving Up 2 (Elevator 0 6 1))) = 0"
    using idle_invariant_preserved
            [where r = "setIdle (startMoving Up 2 (Elevator 0 6 1))" and i = 0 and cap = 6
               and startFloor = 1 and e = "Elevator 0 6 1"]
    by blast
  moreover have "list_all idle_inv (elevators (building hallCall5))"
    using idle_invariant_preserved
            [where s = hallCall5 and cfg = scenarioD_config and i = 0 and cap = 6
               and startFloor = 1 and e = "Elevator 0 6 1", THEN conjunct2, THEN conjunct2,
             THEN conjunct2, rule_format, OF hallCall5_reachable]
    by (auto simp: list_all_iff idle_inv_def)
  ultimately show ?thesis
    using init step idle reach st hallCall5_reachable by blast
qed

section \<open>Hall call requests\<close>

text \<open>
  C8.  \<^verbatim>\<open>requestHallCall(floor, direction)\<close> queues a HallCall event with that floor and
  direction if and only if 1 \<le> floor \<le> numFloors, the direction is Up or Down, and the
  request is neither Down at floor 1 nor Up at floor numFloors; any other request leaves
  the engine (queue and building) as it was.  In every state of a run in which hall
  calls come in through this method only, the building has no hall call (1, Down) and
  none (numFloors, Up): the down flag of floor 1 and the up flag of the top floor are
  never set.
\<close>

theorem hall_call_requests_validated:
  "requestHallCall fl dir s =
     (if 1 \<le> fl \<and> fl \<le> numFloors (config (building s)) \<and> (dir = Up \<or> dir = Down) \<and>
         \<not> (fl = 1 \<and> dir = Down) \<and> \<not> (fl = numFloors (config (building s)) \<and> dir = Up)
      then s\<lparr>eventQueue :=
               push \<lparr>ev_type = HallCall, ev_floor = fl, ev_elevatorId = -1, ev_direction = dir\<rparr>
                 (eventQueue s)\<rparr>
      else s) \<and>
   (reachable cfg r \<longrightarrow>
      \<not> hasHallCall (building r) 1 Down \<and> \<not> hasHallCall (building r) (numFloors cfg) Up \<and>
      (1 \<le> numFloors cfg \<longrightarrow>
         \<not> downButtonPressed (floors (building r) ! 0) \<and>
         \<not> upButtonPressed (floors (building r) ! nat (numFloors cfg - 1))))"
proof (intro conjI impI)
  show "requestHallCall fl dir s =
     (if 1 \<le> fl \<and> fl \<le> numFloors (config (building s)) \<and> (dir = Up \<or> dir = Down) \<and>
         \<not> (fl = 1 \<and> dir = Down) \<and> \<not> (fl = numFloors (config (building s)) \<and> dir = Up)
      then s\<lparr>eventQueue :=
               push \<lparr>ev_type = HallCall, ev_floor = fl, ev_elevatorId = -1, ev_direction = dir\<rparr>
                 (eventQueue s)\<rparr>
      else s)"
    by (cases dir) (auto simp: requestHallCall_def isValidFloor_def getNumFloors_def Event_def)
next
  assume "reachable cfg r"
  then have inv: "boundary_inv cfg r" by (rule boundary_inv_reachable)
  then have acc: "\<And>fl dir. hasHallCall (building r) fl dir \<Longrightarrow> acceptedHallCall cfg fl dir"
    and cfg: "config (building r) = cfg"
    by (simp_all add: boundary_inv_def)
  show down: "\<not> hasHallCall (building r) 1 Down"
    using acc [of 1 Down] by (auto simp: acceptedHallCall_def)
  show up: "\<not> hasHallCall (building r) (numFloors cfg) Up"
    using acc [of "numFloors cfg" Up] by (auto simp: acceptedHallCall_def)
  assume "1 \<le> numFloors cfg"
  then show "\<not> downButtonPressed (floors (building r) ! 0)"
    and "\<not> upButtonPressed (floors (building r) ! nat (numFloors cfg - 1))"
    using down up cfg by (simp_all add: hasHallCall_def isValidFloor_def)
qed

theorem hall_call_requests_validated_witness:
  "requestHallCall 1 Down (SimulationEngine scenarioD_config) = SimulationEngine scenarioD_config \<and>
   requestHallCall 10 Up (SimulationEngine scenarioD_config) = SimulationEngine scenarioD_config \<and>
   requestHallCall 5 Up (SimulationEngine scenarioD_config) =
     (SimulationEngine scenarioD_config)
       \<lparr>eventQueue :=
          push \<lparr>ev_type = HallCall, ev_floor = 5, ev_elevatorId = -1, ev_direction = Up\<rparr>
            (eventQueue (SimulationEngine scenarioD_config))\<rparr> \<and>
   reachable scenarioD_config hallCall5 \<and> hasHallCall (building hallCall5) 5 Up \<and>
   \<not> hasHallCall (building hallCall5) 1 Down \<and>
   \<not> hasHallCall (building hallCall5) (numFloors scenarioD_config) Up \<and>
   1 \<le> numFloors scenarioD_config \<and>
   \<not> downButtonPressed (floors (building hallCall5) ! 0) \<and>
   \<not> upButtonPressed (floors (building hallCall5) ! nat (numFloors scenarioD_config - 1))"
proof -
  have cfg: "numFloors (config (building (SimulationEngine scenarioD_config))) = 10"
    by (simp add: SimulationEngine_def Building_def scenarioD_config_def defaultConfig_def)
  have n: "1 \<le> numFloors scenarioD_config"
    by (simp add: scenarioD_config_def defaultConfig_def)
  have pressed: "hasHallCall (building hallCall5) 5 Up"
    by (simp add: hallCall5_def scenarioD_config_def model_defs hasHallCall_def upto.simps)
  note req = hall_call_requests_validated [THEN conjunct1]
  note inv = hall_call_requests_validated [THEN conjunct2, rule_format, OF hallCall5_reachable]
  note flags = hall_call_requests_validated [THEN conjunct2, rule_format, OF hallCall5_reachable,
      THEN conjunct2, THEN conjunct2, rule_format, OF n]
  show ?thesis
    using req [of 1 Down "SimulationEngine scenarioD_config"]
      req [of 10 Up "SimulationEngine scenarioD_config"]
      req [of 5 Up "SimulationEngine scenarioD_config"]
      hallCall5_reachable pressed inv flags n
    by (simp add: cfg)
qed

section \<open>The event queue after shutdown\<close>

lemma queue_fold_push: "queue (fold push ys q) = queue q @ ys"
  by (induction ys arbitrary: q) (simp_all add: push_def)

lemma shutdownFlag_fold_push: "shutdownFlag (fold push ys q) = shutdownFlag q"
  by (induction ys arbitrary: q) (simp_all add: push_def)

lemma fold_push_clear: "(fold push ys q)\<lparr>queue := []\<rparr> = q\<lparr>queue := []\<rparr>"
  by (induction ys arbitrary: q) (simp_all add: push_def)

lemma pop_all_after_shutdown:
  "shutdownFlag q \<Longrightarrow> queue q = xs \<Longrightarrow>
   pop_all (Suc (length xs)) q = Some (map Some xs @ [None], q\<lparr>queue := []\<rparr>)"
proof (induction xs arbitrary: q)
  case Nil
  then show ?case by (simp add: pop_def)
next
  case (Cons x xs)
  from Cons.prems have "pop q = Some (Some x, q\<lparr>queue := xs\<rparr>)"
    by (simp add: pop_def)
  moreover have "pop_all (Suc (length xs)) (q\<lparr>queue := xs\<rparr>) =
      Some (map Some xs @ [None], q\<lparr>queue := []\<rparr>)"
    using Cons.IH [of "q\<lparr>queue := xs\<rparr>"] Cons.prems by simp
  ultimately show ?case by simp
qed

text \<open>
  C9.  Once shutdown has been signalled, the items still queued and the items pushed
  afterwards are returned by pop in the order of the pushes, followed by
  \<^verbatim>\<open>std::nullopt\<close>; on a queue that was shut down pop returns \<^verbatim>\<open>std::nullopt\<close> exactly
  when the queue is empty, and the front item otherwise; a second shutdown changes
  neither the queue nor what pop and tryPop return.
\<close>

theorem shutdown_keeps_fifo:
  "pop_all (Suc (length (queue q0 @ ys))) (fold push ys (shutdown q0)) =
     Some (map Some (queue q0 @ ys) @ [None], (shutdown q0)\<lparr>queue := []\<rparr>) \<and>
   (shutdownFlag q \<longrightarrow>
      (pop q = Some (None, q)) = (queue q = []) \<and>
      (queue q \<noteq> [] \<longrightarrow> pop q = Some (Some (hd (queue q)), q\<lparr>queue := tl (queue q)\<rparr>))) \<and>
   shutdown (shutdown q0) = shutdown q0 \<and>
   pop (shutdown (shutdown q0)) = pop (shutdown q0) \<and>
   tryPop (shutdown (shutdown q0)) = tryPop (shutdown q0)"
proof (intro conjI impI)
  have "shutdownFlag (fold push ys (shutdown q0))"
    by (simp add: shutdownFlag_fold_push shutdown_def)
  moreover have "queue (fold push ys (shutdown q0)) = queue q0 @ ys"
    by (simp add: queue_fold_push shutdown_def)
  ultimately have "pop_all (Suc (length (queue q0 @ ys))) (fold push ys (shutdown q0)) =
      Some (map Some (queue q0 @ ys) @ [None], (fold push ys (shutdown q0))\<lparr>queue := []\<rparr>)"
    by (rule pop_all_after_shutdown)
  moreover have "(fold push ys (shutdown q0))\<lparr>queue := []\<rparr> = (shutdown q0)\<lparr>queue := []\<rparr>"
    by (rule fold_push_clear)
  ultimately show "pop_all (Suc (length (queue q0 @ ys))) (fold push ys (shutdown q0)) =
     Some (map Some (queue q0 @ ys) @ [None], (shutdown q0)\<lparr>queue := []\<rparr>)"
    by simp
next
  assume "shutdownFlag q"
  then show "(pop q = Some (None, q)) = (queue q = [])"
    by (auto simp: pop_def)
next
  assume "shutdownFlag q" "queue q \<noteq> []"
  then show "pop q = Some (Some (hd (queue q)), q\<lparr>queue := tl (queue q)\<rparr>)"
    by (simp add: pop_def)
qed (simp_all add: shutdown_def)

theorem shutdown_keeps_fifo_witness:
  "pop_all 4 (push (3::nat) (shutdown (push 2 (push 1 EventQueue)))) =
     Some ([Some 1, Some 2, Some 3, None], \<lparr>queue = [], shutdownFlag = True\<rparr>) \<and>
   shutdownFlag (shutdown (EventQueue :: nat EventQueue)) \<and>
   pop (shutdown (EventQueue :: nat EventQueue)) = Some (None, shutdown EventQueue) \<and>
   shutdownFlag (shutdown (push (1::nat) EventQueue)) \<and>
   pop (shutdown (push (1::nat) EventQueue)) = Some (Some 1, shutdown EventQueue)"
proof -
  have a: "pop_all 4 (push (3::nat) (shutdown (push 2 (push 1 EventQueue)))) =
     Some ([Some 1, Some 2, Some 3, None], \<lparr>queue = [], shutdownFlag = True\<rparr>)"
    using shutdown_keeps_fifo [of "push 2 (push (1::nat) EventQueue)" "[3]" EventQueue, THEN conjunct1]
    by (simp add: push_def shutdown_def EventQueue_def eval_nat_numeral)
  have b: "shutdownFlag (shutdown (EventQueue :: nat EventQueue))"
    by (simp add: shutdown_def)
  have c: "pop (shutdown (EventQueue :: nat EventQueue)) = Some (None, shutdown EventQueue)"
    using shutdown_keeps_fifo [where q = "shutdown (EventQueue :: nat EventQueue)" and ys = "[]"
        and ?q0.0 = EventQueue, THEN conjunct2, THEN conjunct1, rule_format, OF b, THEN conjunct1]
    by (simp add: shutdown_def EventQueue_def)
  have d: "shutdownFlag (shutdown (push (1::nat) EventQueue))"
    by (simp add: shutdown_def)
  have e: "pop (shutdown (push (1::nat) EventQueue)) = Some (Some 1, shutdown EventQueue)"
    using shutdown_keeps_fifo [where q = "shutdown (push (1::nat) EventQueue)" and ys = "[]"
        and ?q0.0 = EventQueue, THEN conjunct2, THEN conjunct1, rule_format, OF d, THEN conjunct2]
    by (simp add: shutdown_def push_def EventQueue_def)
  from a b c d e show ?thesis by blast
qed

section \<open>A hall call for a floor that does not exist\<close>

text \<open>
  C10 (as amended).  For a floor outside [1, numFloors], at least one car, costs below
  \<^verbatim>\<open>INT_MAX\<close> and a key not yet in the table, \<^verbatim>\<open>selectElevator\<close> returns a car of the
  building; when that car is not idle, \<^verbatim>\<open>handleHallCall\<close> returns having stored the car
  under the key and leaves the building as it was: no floor button is pressed and the
  busy car is not dispatched.
\<close>

theorem unvalidated_hall_call:
  assumes "\<not> isValidFloor b fl" and "1 \<le> numElevators (config b)"
    and "\<forall>j. isValidElevator b j \<longrightarrow> calculateCost b (elevators b ! nat j) fl dir < INT_MAX"
    and "\<not> mutex m" and "map_find (assignments m) (fl, dir) = None"
  shows "\<exists>i. selectElevator b fl dir = Inr i \<and> isValidElevator b i \<and>
           (state (elevators b ! nat i) \<noteq> ElevatorState.Idle \<longrightarrow>
              Master_handleHallCall fl dir b m =
                Inr (b, m\<lparr>assignments := map_assign (fl, dir) i (assignments m)\<rparr>) \<and>
              map_find (map_assign (fl, dir) i (assignments m)) (fl, dir) = Some i)"
proof -
  have "isValidElevator b 0" using assms(2) by (simp add: isValidElevator_def)
  with assms(3) have ex: "\<exists>j. isValidElevator b j \<and> calculateCost b (elevators b ! nat j) fl dir < INT_MAX"
    by blast
  from selectElevator_minimal [of b fl dir] ex obtain i where
    sel: "selectElevator b fl dir = Inr i" and valid: "isValidElevator b i"
    by auto
  have reg: "registerHallCall fl dir b = b" using assms(1) by (rule registerHallCall_invalid)
  have "state (elevators b ! nat i) \<noteq> ElevatorState.Idle \<longrightarrow>
              Master_handleHallCall fl dir b m =
                Inr (b, m\<lparr>assignments := map_assign (fl, dir) i (assignments m)\<rparr>)"
    using Master_handleHallCall_busy_car [of m fl dir b i] assms(4,5) sel valid reg
    by (simp add: isValidElevator_def)
  with sel valid show ?thesis by (auto simp: map_find_map_assign)
qed

lemma busyCar_facts:
  shows "\<not> isValidFloor busyCar 11" and "1 \<le> numElevators (config busyCar)"
    and "\<forall>j. isValidElevator busyCar j \<longrightarrow>
          calculateCost busyCar (elevators busyCar ! nat j) 11 Down < INT_MAX"
    and "\<not> mutex MasterController" and "map_find (assignments MasterController) (11, Down) = None"
  by (auto simp: busyCar_def isValidFloor_def isValidElevator_def defaultConfig_def
        calculateCost_def costToServe_def getNumFloors_def INT_MAX_def MasterController_def
        map_find_def Elevator_def startMoving_def addCarCall_def Let_def)

text \<open>
  C10 as the specification states it fails: the hall call (11, Down) is assigned to the only car, which
  keeps moving down from floor 5 and is not dispatched toward floor 11.
\<close>

theorem unvalidated_hall_call_counterexample:
  "\<not> isValidFloor busyCar 11 \<and>
   Master_handleHallCall 11 Down busyCar MasterController =
     Inr (busyCar, \<lparr>assignments = [((11, Down), 0)], mutex = False\<rparr>) \<and>
   state (elevators busyCar ! 0) = Moving \<and> direction (elevators busyCar ! 0) = Down \<and>
   currentFloor (elevators busyCar ! 0) = 5"
  by (simp add: master_defs getElevator_def isValidElevator_def isValidFloor_def
        registerHallCall_def getNumElevators_def getNumFloors_def map_find_def INT_MAX_def
        Let_def busyCar_def defaultConfig_def Elevator_def startMoving_def addCarCall_def
        upto_0_0)

theorem unvalidated_hall_call_witness:
  "\<not> isValidFloor busyCar 11 \<and> numElevators (config busyCar) = 1 \<and>
   calculateCost busyCar (elevators busyCar ! nat 0) 11 Down = 26 \<and>
   \<not> mutex MasterController \<and> map_find (assignments MasterController) (11, Down) = None \<and>
   selectElevator busyCar 11 Down = Inr 0 \<and> isValidElevator busyCar 0 \<and>
   state (elevators busyCar ! nat 0) \<noteq> ElevatorState.Idle \<and>
   Master_handleHallCall 11 Down busyCar MasterController =
     Inr (busyCar, MasterController\<lparr>assignments := map_assign (11, Down) 0 (assignments MasterController)\<rparr>)"
proof -
  note f = busyCar_facts
  from unvalidated_hall_call [OF f]
  obtain i where sel: "selectElevator busyCar 11 Down = Inr i" and v: "isValidElevator busyCar i"
    and run: "state (elevators busyCar ! nat i) \<noteq> ElevatorState.Idle \<longrightarrow>
              Master_handleHallCall 11 Down busyCar MasterController =
                Inr (busyCar, MasterController\<lparr>assignments := map_assign (11, Down) i (assignments MasterController)\<rparr>)"
    by blast
  from v have i: "i = 0" by (simp add: isValidElevator_def busyCar_def defaultConfig_def)
  have busy: "state (elevators busyCar ! nat 0) \<noteq> ElevatorState.Idle"
    by (simp add: busyCar_def startMoving_def)
  have n: "numElevators (config busyCar) = 1"
    by (simp add: busyCar_def defaultConfig_def)
  have cost: "calculateCost busyCar (elevators busyCar ! nat 0) 11 Down = 26"
    by (simp add: busyCar_def defaultConfig_def calculateCost_def costToServe_def
          getNumFloors_def Elevator_def startMoving_def addCarCall_def Let_def)
  from f(1,4,5) n cost sel v run busy i show ?thesis by simp
qed

end
